theory Spec2Isabelle
  imports Main "HOL-Library.Sublist" "HOL-Library.Char_ord" "HOL-Library.List_Lexorder"
begin

section \<open>Strings: the functions of Go's \<open>strings\<close> package that the renderer calls\<close>

text \<open>
  A Go string is a sequence of bytes; \<open>string\<close> (a list of \<open>char\<close>) is the same thing.
  \<open>Cut s sep\<close> is \<open>strings.Cut\<close>: the text before and after the first instance of
  \<open>sep\<close>, or nothing when \<open>sep\<close> does not occur.
\<close>

fun Cut :: "string \<Rightarrow> string \<Rightarrow> (string \<times> string) option" where
  "Cut [] sep = (if sep = [] then Some ([], []) else None)"
| "Cut (c # cs) sep =
     (if prefix sep (c # cs) then Some ([], drop (length sep) (c # cs))
      else (case Cut cs sep of None \<Rightarrow> None | Some (a, b) \<Rightarrow> Some (c # a, b)))"

lemma Cut_length:
  "Cut s sep = Some (a, b) \<Longrightarrow> length s = length a + length sep + length b"
proof (induction s arbitrary: a)
  case Nil
  then show ?case by (simp split: if_splits)
next
  case (Cons c cs)
  show ?case
  proof (cases "prefix sep (c # cs)")
    case True
    with Cons.prems have "a = []" and "b = drop (length sep) (c # cs)" by simp_all
    moreover from True have "length sep \<le> length (c # cs)" by (rule prefix_length_le)
    ultimately show ?thesis by simp
  next
    case False
    with Cons.prems obtain a' where "Cut cs sep = Some (a', b)" and "a = c # a'"
      by (auto split: option.splits)
    with Cons.IH show ?thesis by simp
  qed
qed

text \<open>
  \<open>strings.Split(s, sep)\<close> for a non-empty separator: \<open>s\<close> cut at every instance of
  \<open>sep\<close>, scanning from the left. (With the empty separator Go explodes the string;
  the renderer never passes one.)
\<close>

function Split :: "string \<Rightarrow> string \<Rightarrow> string list" where
  "Split s sep =
     (if sep = [] then map (\<lambda>c. [c]) s
      else (case Cut s sep of None \<Rightarrow> [s] | Some (a, b) \<Rightarrow> a # Split b sep))"
  by pat_completeness auto
termination
proof (relation "measure (\<lambda>(s, sep). length s)")
  show "wf (measure (\<lambda>(s, sep). length s))" by simp
next
  fix s sep :: string and x2 :: "string \<times> string" and a b :: string
  assume "sep \<noteq> []" and "Cut s sep = Some x2" and "(a, b) = x2"
  then have "length s = length a + length sep + length b"
    using Cut_length [of s sep a b] by simp
  with \<open>sep \<noteq> []\<close> show "((b, sep), (s, sep)) \<in> measure (\<lambda>(s, sep). length s)"
    by (cases sep) simp_all
qed

declare Split.simps [simp del]

text \<open>\<open>strings.Join\<close>.\<close>

fun Join :: "string list \<Rightarrow> string \<Rightarrow> string" where
  "Join [] sep = []"
| "Join [x] sep = x"
| "Join (x # y # ys) sep = x @ sep @ Join (y # ys) sep"

text \<open>\<open>strings.SplitN\<close> with a count \<open>n \<ge> 0\<close>: at most \<open>n\<close> pieces, the last one the unsplit rest.\<close>

fun SplitN :: "string \<Rightarrow> string \<Rightarrow> nat \<Rightarrow> string list" where
  "SplitN s sep 0 = []"
| "SplitN s sep (Suc 0) = [s]"
| "SplitN s sep (Suc (Suc n)) =
     (case Cut s sep of None \<Rightarrow> [s] | Some (a, b) \<Rightarrow> a # SplitN b sep (Suc n))"

text \<open>\<open>strings.Count\<close>: the number of non-overlapping instances of \<open>substr\<close>.\<close>

function Count :: "string \<Rightarrow> string \<Rightarrow> nat" where
  "Count s substr =
     (if substr = [] then length s + 1
      else (case Cut s substr of None \<Rightarrow> 0 | Some (a, b) \<Rightarrow> 1 + Count b substr))"
  by pat_completeness auto
termination
proof (relation "measure (\<lambda>(s, substr). length s)")
  show "wf (measure (\<lambda>(s, substr). length s))" by simp
next
  fix s substr :: string and x2 :: "string \<times> string" and a b :: string
  assume "substr \<noteq> []" and "Cut s substr = Some x2" and "(a, b) = x2"
  then have "length s = length a + length substr + length b"
    using Cut_length [of s substr a b] by simp
  with \<open>substr \<noteq> []\<close> show "((b, substr), (s, substr)) \<in> measure (\<lambda>(s, substr). length s)"
    by (cases substr) simp_all
qed

declare Count.simps [simp del]

text \<open>
  \<open>strings.ReplaceAll\<close>: every non-overlapping instance of \<open>old\<close>, found scanning from
  the left, replaced by \<open>new\<close>. The text put together by a replacement is not scanned
  again.
\<close>

function ReplaceAll :: "string \<Rightarrow> string \<Rightarrow> string \<Rightarrow> string" where
  "ReplaceAll s old new =
     (if old = [] then concat (map (\<lambda>c. new @ [c]) s) @ new
      else (case Cut s old of None \<Rightarrow> s | Some (a, b) \<Rightarrow> a @ new @ ReplaceAll b old new))"
  by pat_completeness auto
termination
proof (relation "measure (\<lambda>(s, old, new). length s)")
  show "wf (measure (\<lambda>(s, old, new). length s))" by simp
next
  fix s old new :: string and x2 :: "string \<times> string" and a b :: string
  assume "old \<noteq> []" and "Cut s old = Some x2" and "(a, b) = x2"
  then have "length s = length a + length old + length b"
    using Cut_length [of s old a b] by simp
  with \<open>old \<noteq> []\<close> show "((b, old, new), (s, old, new)) \<in> measure (\<lambda>(s, old, new). length s)"
    by (cases old) simp_all
qed

declare ReplaceAll.simps [simp del]

definition HasPrefix :: "string \<Rightarrow> string \<Rightarrow> bool" where
  "HasPrefix s pre = prefix pre s"

text \<open>
  \<open>strings.Compare\<close>: the lexicographic comparison of the bytes, which is the order of
  \<open>string\<close> here (lists ordered lexicographically, characters by their code).
\<close>

definition Compare :: "string \<Rightarrow> string \<Rightarrow> int" where
  "Compare a b = (if a < b then - 1 else if a = b then 0 else 1)"

text \<open>
  \<open>path.Base\<close>: the last element of a slash-separated path, after trailing slashes are
  dropped; \<open>.\<close> for the empty path and \<open>/\<close> for a path of slashes only.
\<close>

definition Base :: "string \<Rightarrow> string" where
  "Base p =
     (if p = [] then ''.''
      else (let stripped = rev (dropWhile (\<lambda>c. c = CHR ''/'') (rev p));
                elem = rev (takeWhile (\<lambda>c. c \<noteq> CHR ''/'') (rev stripped))
            in if elem = [] then ''/'' else elem))"

subsection \<open>Cutting, splitting and joining\<close>

lemma Cut_None_iff: "sep \<noteq> [] \<Longrightarrow> Cut s sep = None \<longleftrightarrow> \<not> sublist sep s"
  by (induction s) (auto simp: sublist_Cons_right split: option.splits)

lemma Cut_Some: "Cut s sep = Some (a, b) \<Longrightarrow> s = a @ sep @ b"
proof (induction s arbitrary: a)
  case Nil
  then show ?case by (simp split: if_splits)
next
  case (Cons c cs)
  then show ?case
    by (auto simp: prefix_def split: if_splits option.splits)
qed

lemma prefix_shorter: "prefix xs (ys @ zs) \<Longrightarrow> length xs \<le> length ys \<Longrightarrow> prefix xs ys"
  by (meson prefixI prefix_length_prefix)

lemma Cut_append:
  "sep \<noteq> [] \<Longrightarrow> \<not> sublist sep (a @ butlast sep) \<Longrightarrow> Cut (a @ sep @ b) sep = Some (a, b)"
proof (induction a)
  case Nil
  then show ?case by (cases sep) auto
next
  case (Cons c a)
  have np: "\<not> prefix sep (c # a @ sep @ b)"
  proof
    assume p: "prefix sep (c # a @ sep @ b)"
    have "c # a @ sep @ b = (c # a @ butlast sep) @ (last sep # b)"
      using Cons.prems(1) by simp
    with p have "prefix sep ((c # a @ butlast sep) @ (last sep # b))" by simp
    moreover have "length sep \<le> length (c # a @ butlast sep)" by simp
    ultimately have "prefix sep (c # a @ butlast sep)"
      by (rule prefix_shorter)
    then show False using Cons.prems(2) by auto
  qed
  have "\<not> sublist sep (a @ butlast sep)"
    using Cons.prems(2) by (auto simp: sublist_Cons_right)
  with Cons.IH Cons.prems(1) have "Cut (a @ sep @ b) sep = Some (a, b)" by simp
  with np show ?case by simp
qed

lemma Cut_first:
  "sep \<noteq> [] \<Longrightarrow> Cut s sep = Some (a, b) \<Longrightarrow> \<not> sublist sep (a @ butlast sep)"
proof (induction s arbitrary: a)
  case Nil
  then show ?case by simp
next
  case (Cons c cs)
  show ?case
  proof (cases "prefix sep (c # cs)")
    case True
    with Cons.prems have "a = []" by simp
    moreover have "length (butlast sep) < length sep" using Cons.prems(1) by simp
    then have "\<not> sublist sep (butlast sep)"
      using sublist_length_le [of sep "butlast sep"] by auto
    ultimately show ?thesis by simp
  next
    case False
    with Cons.prems obtain a' where c: "Cut cs sep = Some (a', b)" and a: "a = c # a'"
      by (auto split: option.splits)
    from Cons.IH [OF Cons.prems(1) c] have ih: "\<not> sublist sep (a' @ butlast sep)" .
    have cs: "cs = a' @ sep @ b" using c by (rule Cut_Some)
    have "\<not> prefix sep (c # a' @ butlast sep)"
    proof
      assume "prefix sep (c # a' @ butlast sep)"
      then have "prefix sep ((c # a' @ butlast sep) @ (last sep # b))"
        by (rule prefix_prefix)
      moreover have "(c # a' @ butlast sep) @ (last sep # b) = c # cs"
        using cs Cons.prems(1) by simp
      ultimately show False using False by simp
    qed
    with ih a show ?thesis by (simp add: sublist_Cons_right)
  qed
qed

lemma Split_not_Nil: "sep \<noteq> [] \<Longrightarrow> Split s sep \<noteq> []"
  by (subst Split.simps) (auto split: option.splits)

lemma sublist_butlast:
  assumes "sep \<noteq> []" and "hd sep \<notin> set (tl sep)" and "\<not> sublist sep a"
  shows "\<not> sublist sep (a @ butlast sep)"
proof
  have lt: "length (butlast sep) < length sep" using assms(1) by simp
  assume "sublist sep (a @ butlast sep)"
  then consider "sublist sep a" | "sublist sep (butlast sep)"
    | xs1 xs2 where "sep = xs1 @ xs2" "suffix xs1 a" "prefix xs2 (butlast sep)"
    by (auto simp: sublist_append)
  then show False
  proof cases
    case 1
    with assms(3) show False by simp
  next
    case 2
    then have "length sep \<le> length (butlast sep)" by (rule sublist_length_le)
    with lt show False by simp
  next
    case 3
    show False
    proof (cases "xs2 = []")
      case True
      with 3 have "suffix sep a" by simp
      then have "sublist sep a" by (rule suffix_imp_sublist)
      with assms(3) show False by simp
    next
      case n2: False
      show False
      proof (cases "xs1 = []")
        case True
        with 3 have "prefix sep (butlast sep)" by simp
        then have "length sep \<le> length (butlast sep)" by (rule prefix_length_le)
        with lt show False by simp
      next
        case False
        then obtain c cs where xs1: "xs1 = c # cs" by (cases xs1) auto
        from n2 3(3) have "hd xs2 = hd (butlast sep)"
          by (cases xs2; cases "butlast sep") auto
        moreover from n2 3(3) have "butlast sep \<noteq> []" by (cases xs2) auto
        then have "hd (butlast sep) = hd sep" by (cases sep) auto
        moreover have "set xs2 \<subseteq> set (tl sep)" using 3(1) xs1 by auto
        moreover have "hd xs2 \<in> set xs2" using n2 by simp
        ultimately show False using assms(2) by auto
      qed
    qed
  qed
qed

lemma Split_Join:
  assumes "sep \<noteq> []" and "hd sep \<notin> set (tl sep)"
  shows "xs \<noteq> [] \<Longrightarrow> \<forall>x \<in> set xs. \<not> sublist sep x \<Longrightarrow> Split (Join xs sep) sep = xs"
proof (induction xs)
  case Nil
  then show ?case by simp
next
  case (Cons x xs)
  show ?case
  proof (cases xs)
    case Nil
    from Cons.prems have "Cut x sep = None" using assms(1) by (simp add: Cut_None_iff)
    with Nil assms(1) show ?thesis by (subst Split.simps) simp
  next
    case (Cons y ys)
    from Cons.prems have "\<not> sublist sep x" by simp
    then have "\<not> sublist sep (x @ butlast sep)"
      using assms by (simp add: sublist_butlast)
    then have "Cut (x @ sep @ Join xs sep) sep = Some (x, Join xs sep)"
      using assms(1) by (rule Cut_append [rotated])
    moreover have "Split (Join xs sep) sep = xs"
      using Cons.IH Cons.prems Cons by simp
    ultimately show ?thesis using assms(1) Cons by (subst Split.simps) simp
  qed
qed

lemma Split_pieces:
  "sep \<noteq> [] \<Longrightarrow> x \<in> set (Split s sep) \<Longrightarrow> \<not> sublist sep x"
proof (induction s sep arbitrary: x rule: Split.induct)
  case (1 s sep)
  show ?case
  proof (cases "Cut s sep")
    case None
    with 1(2,3) have "x = s" by (subst (asm) Split.simps) simp
    with None 1(2) show ?thesis by (simp add: Cut_None_iff)
  next
    case (Some p)
    obtain a b where p: "p = (a, b)" by (cases p)
    with Some 1(2,3) have "x = a \<or> x \<in> set (Split b sep)"
      by (subst (asm) Split.simps) simp
    then show ?thesis
    proof
      assume "x = a"
      moreover have "\<not> sublist sep (a @ butlast sep)"
        using 1(2) Some p by (simp add: Cut_first)
      ultimately show ?thesis by (auto simp: sublist_append)
    next
      assume "x \<in> set (Split b sep)"
      with 1(1) [OF 1(2) Some p [symmetric]] 1(2) show ?thesis by simp
    qed
  qed
qed

lemma Cut_prefix: "sep \<noteq> [] \<Longrightarrow> Cut (sep @ b) sep = Some ([], b)"
  by (cases sep) auto

lemma colon_space_unbordered: "'': '' \<noteq> [] \<and> hd '': '' \<notin> set (tl '': '')"
  by simp

lemma Cut_unbordered:
  "sep \<noteq> [] \<Longrightarrow> hd sep \<notin> set (tl sep) \<Longrightarrow> \<not> sublist sep a \<Longrightarrow>
   Cut (a @ sep @ b) sep = Some (a, b)"
  by (rule Cut_append) (simp_all add: sublist_butlast)

lemma Cut_colon:
  "\<not> sublist '': '' a \<Longrightarrow> Cut (a @ '': '' @ b) '': '' = Some (a, b)"
  by (rule Cut_unbordered) simp_all

lemma ReplaceAll_delete: "old \<noteq> [] \<Longrightarrow> ReplaceAll s old [] = concat (Split s old)"
proof (induction s old rule: Split.induct)
  case (1 s sep)
  show ?case
  proof (cases "Cut s sep")
    case None
    with 1(2) show ?thesis by (subst ReplaceAll.simps, subst Split.simps) simp
  next
    case (Some p)
    obtain a b where p: "p = (a, b)" by (cases p)
    from 1(1) [OF 1(2) Some p [symmetric]] 1(2)
    have "ReplaceAll b sep [] = concat (Split b sep)" by simp
    with Some p 1(2) show ?thesis by (subst ReplaceAll.simps, subst Split.simps) simp
  qed
qed

lemma Join_Split: "sep \<noteq> [] \<Longrightarrow> Join (Split s sep) sep = s"
proof (induction s sep rule: Split.induct)
  case (1 s sep)
  show ?case
  proof (cases "Cut s sep")
    case None
    with 1(2) show ?thesis by (subst Split.simps) simp
  next
    case (Some p)
    obtain a b where p: "p = (a, b)" by (cases p)
    from 1(1) [OF 1(2) Some p [symmetric]] 1(2)
    have ih: "Join (Split b sep) sep = b" by simp
    from Some p have s: "s = a @ sep @ b" by (simp add: Cut_Some)
    from Split_not_Nil [OF 1(2), of b] obtain y ys where "Split b sep = y # ys"
      by (cases "Split b sep") auto
    with Some p 1(2) ih s show ?thesis by (subst Split.simps) simp
  qed
qed

lemma no_char_no_sublist: "c \<in> set pat \<Longrightarrow> c \<notin> set s \<Longrightarrow> \<not> sublist pat s"
  by (auto simp: sublist_def)

section \<open>Values: Go's dynamically typed values and map objects\<close>

text \<open>
  A Go map is a reference to a map object: assigning it, storing it under a key or
  passing it to a function copies the reference, and a write through any copy is seen
  through all of them. The model keeps the map objects in a heap, a list indexed by
  address. A reference is an address, or \<open>None\<close> for Go's nil map: reading a nil map
  finds no key, writing to it panics.

  An \<open>interface{}\<close> value carries its dynamic type. \<open>map[string]interface{}\<close> and the
  named type \<open>Values\<close> are different dynamic types over the same kind of object, and the
  type assertions of \<open>tableLookup\<close> and \<open>IsTable\<close> tell them apart: \<open>VMap\<close> and
  \<open>VValues\<close>.
\<close>

type_synonym ref = "nat option"

record metadata =
  md_Name :: string
  md_Type :: string

datatype val =
    VNil
  | VString string
  | VNumber int
  | VBool bool
  | VList "val list"
  | VMap ref
  | VValues ref
  | VChart metadata bool
  | VFiles "(string \<times> string) list"

type_synonym table = "string \<rightharpoonup> val"
type_synonym heap = "table list"

definition deref :: "heap \<Rightarrow> ref \<Rightarrow> table" where
  "deref h r = (case r of None \<Rightarrow> Map.empty
                | Some a \<Rightarrow> if a < length h then h ! a else Map.empty)"

text \<open>\<open>m[k]\<close> without the \<open>ok\<close> result: the zero value \<open>nil\<close> for an absent key.\<close>

definition index :: "table \<Rightarrow> string \<Rightarrow> val" where
  "index m k = (case m k of None \<Rightarrow> VNil | Some x \<Rightarrow> x)"

text \<open>\<open>make(map...)\<close> and map literals allocate a new object at the next free address.\<close>

definition alloc :: "heap \<Rightarrow> table \<Rightarrow> heap \<times> ref" where
  "alloc h m = (h @ [m], Some (length h))"

section \<open>Errors\<close>

text \<open>
  The errors of the value table: the two lookup errors with the key they name, the
  \<open>errors.New\<close> of \<open>PathValue\<close>, and a run-time panic that nothing recovers.
\<close>

datatype table_error =
    ErrNoTable string
  | ErrNoValue string
  | ErrorsNew string
  | Panic string

text \<open>
  The errors of the engine. The engine tells \<open>template.ExecError\<close> from every other
  error by a type assertion and otherwise reads only the message: \<open>Errorf\<close> is any error
  made by \<open>fmt.Errorf\<close> or by the evaluator that is not an \<open>ExecError\<close>, with its
  finished message; \<open>JoinError\<close> is the result of \<open>errors.Join\<close>.
\<close>

datatype go_error =
    Errorf string
  | ExecError string
  | JoinError "go_error list"

fun Error :: "go_error \<Rightarrow> string" where
  "Error (Errorf msg) = msg"
| "Error (ExecError msg) = msg"
| "Error (JoinError errs) = Join (map Error errs) [CHR 0x0A]"

section \<open>The value table (chartvalues.go and the values package)\<close>

definition ParsePath :: "string \<Rightarrow> string list" where
  "ParsePath key = Split key ''.''"

text \<open>
  Modelled from the spec: \<open>JoinPath\<close> is called by \<open>pathValue\<close> and defined in a file
  that is not among the sources. It is the inverse of \<open>ParsePath\<close> on the dotted path
  syntax (\<open>a.b.c\<close>): the segments joined by dots.
\<close>

definition JoinPath :: "string list \<Rightarrow> string" where
  "JoinPath path = Join path ''.''"

text \<open>
  \<open>tableLookup\<close> returns a table beside its error; every caller drops that table when
  the error is set, so the model returns the error alone.
\<close>

definition tableLookup :: "heap \<Rightarrow> ref \<Rightarrow> string \<Rightarrow> table_error + ref" where
  "tableLookup h v simple =
     (case deref h v simple of
        None \<Rightarrow> Inl (ErrNoTable simple)
      | Some (VMap vv) \<Rightarrow> Inr vv
      | Some (VValues vv) \<Rightarrow> Inr vv
      | Some _ \<Rightarrow> Inl (ErrNoTable simple))"

text \<open>The loop of \<open>Table\<close>: one \<open>tableLookup\<close> per segment, stopping at the first error.\<close>

fun Table_loop :: "heap \<Rightarrow> ref \<Rightarrow> string list \<Rightarrow> table_error + ref" where
  "Table_loop h table [] = Inr table"
| "Table_loop h table (n # ns) =
     (case tableLookup h table n of Inl err \<Rightarrow> Inl err | Inr t \<Rightarrow> Table_loop h t ns)"

definition Table :: "heap \<Rightarrow> ref \<Rightarrow> string \<Rightarrow> table_error + ref" where
  "Table h v name = Table_loop h v (ParsePath name)"

definition IsTable :: "val \<Rightarrow> bool" where
  "IsTable v = (case v of VMap _ \<Rightarrow> True | _ \<Rightarrow> False)"

text \<open>
  \<open>pathValue\<close> on the parsed path. With no segment at all \<open>path[len(path)-1]\<close> is
  out of range and Go panics.
\<close>

definition pathValue :: "heap \<Rightarrow> ref \<Rightarrow> string list \<Rightarrow> table_error + val" where
  "pathValue h v path =
     (if length path = 1 then
        (case deref h v (path ! 0) of
           Some x \<Rightarrow> if \<not> IsTable x then Inr x else Inl (ErrNoValue (path ! 0))
         | None \<Rightarrow> Inl (ErrNoValue (path ! 0)))
      else if path = [] then Inl (Panic ''index out of range [-1]'')
      else
        (let key = last path; path' = butlast path in
         case Table h v (JoinPath path') of
           Inl err \<Rightarrow> Inl (ErrNoValue key)
         | Inr t \<Rightarrow>
             (case deref h t key of
                Some k \<Rightarrow> if \<not> IsTable k then Inr k else Inl (ErrNoValue key)
              | None \<Rightarrow> Inl (ErrNoValue key))))"

definition PathValue :: "heap \<Rightarrow> ref \<Rightarrow> string \<Rightarrow> table_error + val" where
  "PathValue h v path =
     (if path = [] then Inl (ErrorsNew ''YAML path cannot be empty'')
      else pathValue h v (ParsePath path))"

text \<open>
  The dotted path syntax in the words of the specification: every segment but the last
  names a table inside the table before it, and the last segment is the key of the leaf
  in the table reached. \<open>leafAt\<close> is the leaf, if the path reaches one.
\<close>

fun leafAt :: "heap \<Rightarrow> ref \<Rightarrow> string list \<Rightarrow> val option" where
  "leafAt h t [] = None"
| "leafAt h t [k] = deref h t k"
| "leafAt h t (s # k # ks) =
     (case tableLookup h t s of Inl err \<Rightarrow> None | Inr t' \<Rightarrow> leafAt h t' (k # ks))"

subsection \<open>The leaf of a dotted path\<close>

lemma leafAt_snoc:
  "leafAt h v (xs @ [k]) =
     (case Table_loop h v xs of Inl err \<Rightarrow> None | Inr t \<Rightarrow> deref h t k)"
proof (induction xs arbitrary: v)
  case Nil
  then show ?case by simp
next
  case (Cons x xs)
  then show ?case by (cases "xs @ [k]") (auto split: sum.splits)
qed

lemma dot_free: "sublist ''.'' x \<longleftrightarrow> CHR ''.'' \<in> set x"
  by (induction x) (auto simp: sublist_Cons_right)

text \<open>
  What \<open>PathValue\<close> computes. It rejects the empty path as a usage error. For any other
  path it returns the leaf at the dotted path exactly when the path reaches a leaf and
  \<open>IsTable\<close> rejects the leaf; otherwise it fails with \<open>ErrNoValue\<close> naming the last
  segment of the path.
\<close>

lemma PathValue_leaf:
  "PathValue h v p =
     (if p = [] then Inl (ErrorsNew ''YAML path cannot be empty'')
      else (case leafAt h v (ParsePath p) of
              None \<Rightarrow> Inl (ErrNoValue (last (ParsePath p)))
            | Some x \<Rightarrow> if IsTable x then Inl (ErrNoValue (last (ParsePath p))) else Inr x))"
proof (cases "p = []")
  case True
  then show ?thesis by (simp add: PathValue_def)
next
  case False
  define path where "path = ParsePath p"
  have ne: "path \<noteq> []" unfolding path_def ParsePath_def by (simp add: Split_not_Nil)
  have free: "\<forall>x \<in> set path. \<not> sublist ''.'' x"
    unfolding path_def ParsePath_def using Split_pieces [of "''.''" _ p] by blast
  have "pathValue h v path =
      (case leafAt h v path of
              None \<Rightarrow> Inl (ErrNoValue (last path))
            | Some x \<Rightarrow> if IsTable x then Inl (ErrNoValue (last path)) else Inr x)"
  proof (cases "length path = 1")
    case True
    then obtain k where "path = [k]" by (cases path) auto
    then show ?thesis by (simp add: pathValue_def split: option.splits)
  next
    case False
    with ne have bn: "butlast path \<noteq> []" by (cases path) auto
    have "\<forall>x \<in> set (butlast path). \<not> sublist ''.'' x"
      using free by (meson in_set_butlastD)
    then have "Split (Join (butlast path) ''.'') ''.'' = butlast path"
      using bn by (intro Split_Join) simp_all
    then have T: "Table h v (JoinPath (butlast path)) = Table_loop h v (butlast path)"
      by (simp add: Table_def ParsePath_def JoinPath_def)
    have "leafAt h v path = leafAt h v (butlast path @ [last path])"
      using ne by simp
    also have "\<dots> = (case Table_loop h v (butlast path) of Inl err \<Rightarrow> None
                      | Inr t \<Rightarrow> deref h t (last path))"
      by (rule leafAt_snoc)
    finally show ?thesis
      using False ne T by (simp add: pathValue_def Let_def split: sum.splits option.splits)
  qed
  then show ?thesis unfolding path_def using False by (simp add: PathValue_def)
qed

text \<open>
  Claim C9 says that \<open>PathValue\<close> never returns a table: the path of a table-valued key
  must fail. \<open>IsTable\<close> knows the dynamic type \<open>map[string]interface{}\<close> alone, while
  \<open>tableLookup\<close> walks a value of the named type \<open>Values\<close> as a table too. In the table
  below the key \<open>a\<close> holds a \<open>Values\<close> and the key \<open>m\<close> a \<open>map[string]interface{}\<close>, both
  the same map object: \<open>Table\<close> finds the table under \<open>a\<close> and \<open>PathValue\<close> reads the
  leaf \<open>a.b\<close> through it, yet \<open>PathValue\<close> returns that table for the path \<open>a\<close>, and
  fails, as the claim asks, only for the path \<open>m\<close>.
\<close>

theorem PathValue_returns_Values_table:
  "Table [[''a'' \<mapsto> VValues (Some 1), ''m'' \<mapsto> VMap (Some 1)], [''b'' \<mapsto> VNumber 1]] (Some 0) ''a''
     = Inr (Some 1) \<and>
   Table [[''a'' \<mapsto> VValues (Some 1), ''m'' \<mapsto> VMap (Some 1)], [''b'' \<mapsto> VNumber 1]] (Some 0) ''a.b''
     = Inl (ErrNoTable ''b'') \<and>
   PathValue [[''a'' \<mapsto> VValues (Some 1), ''m'' \<mapsto> VMap (Some 1)], [''b'' \<mapsto> VNumber 1]] (Some 0) ''a.b''
     = Inr (VNumber 1) \<and>
   PathValue [[''a'' \<mapsto> VValues (Some 1), ''m'' \<mapsto> VMap (Some 1)], [''b'' \<mapsto> VNumber 1]] (Some 0) ''a''
     = Inr (VValues (Some 1)) \<and>
   PathValue [[''a'' \<mapsto> VValues (Some 1), ''m'' \<mapsto> VMap (Some 1)], [''b'' \<mapsto> VNumber 1]] (Some 0) ''m''
     = Inl (ErrNoValue ''m'')"
  by (simp add: Table_def PathValue_def pathValue_def ParsePath_def JoinPath_def Split.simps
      tableLookup_def deref_def IsTable_def Let_def)

section \<open>The engine (engine.go)\<close>

subsection \<open>The template evaluator\<close>

text \<open>
  The evaluator is Go's \<open>text/template\<close>, outside the repository. The engine drives one
  \<open>*template.Template\<close>: a name, the missing-key option, and the namespace it shares
  with every template parsed into it (the template texts by name).
\<close>

record template =
  tmpl_name :: string
  tmpl_option :: string
  tmpl :: "string \<rightharpoonup> string"

text \<open>
  What an execution gives back: the text written, an error, or a panic raised while
  evaluating.
\<close>

datatype exec_result = Executed string | Failed go_error | Panicked string

text \<open>
  The behaviour of the evaluator is a parameter of the model. \<open>parse_error name text\<close> is
  the error text of \<open>New(name).Parse(text)\<close> when \<open>text\<close> is malformed;
  \<open>clone_error\<close> is the error of \<open>Clone\<close>, if it gives one;
  \<open>ExecuteTemplate t h name data\<close> executes the template registered under \<open>name\<close> in
  the namespace of \<open>t\<close> on \<open>data\<close>, reading the map objects of the heap \<open>h\<close>;
  \<open>quote\<close> is the \<open>%q\<close> verb of \<open>fmt\<close> on a string.
\<close>

record evaluator =
  parse_error :: "string \<Rightarrow> string \<Rightarrow> string option"
  clone_error :: "template \<Rightarrow> string option"
  ExecuteTemplate :: "template \<Rightarrow> heap \<Rightarrow> string \<Rightarrow> val \<Rightarrow> exec_result"
  quote :: "string \<Rightarrow> string"

text \<open>\<open>t.New(name).Parse(text)\<close>: the text is registered under the name, unless it is malformed.\<close>

definition New_Parse :: "evaluator \<Rightarrow> template \<Rightarrow> string \<Rightarrow> string \<Rightarrow> string + template" where
  "New_Parse ev t name text =
     (case parse_error ev name text of
        Some err \<Rightarrow> Inl err
      | None \<Rightarrow> Inr (t\<lparr>tmpl := (tmpl t)(name \<mapsto> text)\<rparr>))"

subsection \<open>Engine, options, renderable\<close>

record engineOptions =
  EnableDNS :: bool
  Strict :: bool
  LintMode :: bool

record Engine =
  options :: engineOptions
  goTemplate :: template

record renderable =
  tpl :: string
  vals :: ref
  basePath :: string

definition NewEngine :: "engineOptions \<Rightarrow> Engine" where
  "NewEngine opts =
     \<lparr>options = opts,
      goTemplate = \<lparr>tmpl_name = ''gotpl'',
                    tmpl_option = (if Strict opts then ''missingkey=error'' else ''missingkey=zero''),
                    tmpl = Map.empty\<rparr>\<rparr>"

definition warnStartDelim :: string where
  "warnStartDelim = ''HELM_ERR_START''"

definition warnEndDelim :: string where
  "warnEndDelim = ''HELM_ERR_END''"

definition recursionMaxNums :: int where
  "recursionMaxNums = 1000"

definition warnWrap :: "string \<Rightarrow> string" where
  "warnWrap warn = warnStartDelim @ warn @ warnEndDelim"

text \<open>
  \<open>warnRegex.FindStringSubmatch\<close> for the pattern
  \<open>HELM_ERR_START((?s).*)HELM_ERR_END\<close>: the match starts at the first start delimiter, and
  the greedy group, which also runs over line ends, reaches to the last end delimiter
  after it. The result is the whole match and the group, or nothing without a match.
\<close>

definition warnRegex_FindStringSubmatch :: "string \<Rightarrow> string list" where
  "warnRegex_FindStringSubmatch s =
     (case Cut s warnStartDelim of
        None \<Rightarrow> []
      | Some (pre, rest) \<Rightarrow>
          (case Cut (rev rest) (rev warnEndDelim) of
             None \<Rightarrow> []
           | Some (post, grp) \<Rightarrow>
               [warnStartDelim @ rev grp @ warnEndDelim, rev grp]))"

subsection \<open>The functions \<open>required\<close> and \<open>fail\<close>\<close>

text \<open>
  The closures of \<open>initFunMap\<close>. Each returns its value, its error (or none) and the
  lines it writes to the log.
\<close>

definition required :: "engineOptions \<Rightarrow> string \<Rightarrow> val \<Rightarrow> (val \<times> go_error option) \<times> string list" where
  "required opts warn v =
     (case v of
        VNil \<Rightarrow>
          (if LintMode opts then ((VString [], None), [''[INFO] Missing required value: '' @ warn])
           else ((v, Some (Errorf (warnWrap warn))), []))
      | VString s \<Rightarrow>
          (if s = [] then
             (if LintMode opts then ((VString [], None), [''[INFO] Missing required value: '' @ warn])
              else ((v, Some (Errorf (warnWrap warn))), []))
           else ((v, None), []))
      | _ \<Rightarrow> ((v, None), []))"

definition fail :: "engineOptions \<Rightarrow> string \<Rightarrow> (string \<times> go_error option) \<times> string list" where
  "fail opts msg =
     (if LintMode opts then (([], None), [''[INFO] Fail: '' @ msg])
      else (([], Some (Errorf (warnWrap msg))), []))"

subsection \<open>Cleaning up errors\<close>

definition cleanupParseError :: "string \<Rightarrow> string \<Rightarrow> go_error" where
  "cleanupParseError filename err =
     (let tokens = Split err '': '' in
      if length tokens = 1 then Errorf (''parse error in ('' @ filename @ ''): '' @ err)
      else (let location = tokens ! 1; errMsg = tokens ! (length tokens - 1)
            in Errorf (''parse error at ('' @ location @ ''): '' @ errMsg)))"

definition cleanupExecError :: "string \<Rightarrow> go_error \<Rightarrow> go_error" where
  "cleanupExecError filename err =
     (case err of
        ExecError text \<Rightarrow>
          (let tokens = SplitN text '': '' 3 in
           if length tokens \<noteq> 3 then Errorf (''execution error in ('' @ filename @ ''): '' @ text)
           else (let location = tokens ! 1; parts = warnRegex_FindStringSubmatch (tokens ! 2)
                 in if length parts \<ge> 2
                    then Errorf (''execution error at ('' @ location @ ''): '' @ parts ! 1)
                    else err))
      | _ \<Rightarrow> err)"

subsection \<open>\<open>tpl\<close>\<close>

text \<open>
  \<open>tplFun\<close>: the text is parsed into a clone of the namespace under the parent's name and
  executed on the data. Re-injecting \<open>include\<close> and \<open>tpl\<close> into the clone changes which
  namespace those two functions see, which is the clone the evaluator is given here.
  The closure returns its string and its error; a panic of the evaluator passes through
  it.
\<close>

datatype 'a outcome = Returns 'a | Panics string

definition tplFun ::
  "evaluator \<Rightarrow> template \<Rightarrow> bool \<Rightarrow> heap \<Rightarrow> string \<Rightarrow> val \<Rightarrow> (string \<times> go_error option) outcome" where
  "tplFun ev parent strict h text data =
     (case clone_error ev parent of
        Some err \<Rightarrow> Returns ([], Some (Errorf (''cannot clone template: '' @ err)))
      | None \<Rightarrow>
          (let t = parent\<lparr>tmpl_option := (if strict then ''missingkey=error'' else ''missingkey=zero'')\<rparr>
           in case New_Parse ev t (tmpl_name parent) text of
                Inl err \<Rightarrow>
                  Returns ([], Some (Errorf (''cannot parse template '' @ quote ev text @ '': '' @ err)))
              | Inr t' \<Rightarrow>
                  (case ExecuteTemplate ev t' h (tmpl_name parent) data of
                     Failed err \<Rightarrow>
                       Returns ([], Some (Errorf (''error during tpl function execution for ''
                                                 @ quote ev text @ '': '' @ Error err)))
                   | Panicked p \<Rightarrow> Panics p
                   | Executed buf \<Rightarrow> Returns (ReplaceAll buf ''<no value>'' [], None))))"

subsection \<open>Ordering the templates\<close>

text \<open>
  \<open>byPathLen.Less\<close> on two keys, and the order \<open>sort.Reverse\<close> makes of it by swapping
  the arguments.
\<close>

definition Less :: "string \<Rightarrow> string \<Rightarrow> bool" where
  "Less a b =
     (let ca = Count a ''/''; cb = Count b ''/'' in
      if ca = cb then Compare a b = - 1 else ca < cb)"

definition Reverse :: "('a \<Rightarrow> 'a \<Rightarrow> bool) \<Rightarrow> 'a \<Rightarrow> 'a \<Rightarrow> bool" where
  "Reverse lt a b = lt b a"

text \<open>
  \<open>sort.Sort\<close> rearranges the slice so that no element is lt than one before it. The
  keys of a map are distinct and the order is total on them, so only one arrangement
  qualifies (\<open>sorted_arrangement_unique\<close> below); the model reaches it by insertion.
\<close>

fun insert_sorted :: "('a \<Rightarrow> 'a \<Rightarrow> bool) \<Rightarrow> 'a \<Rightarrow> 'a list \<Rightarrow> 'a list" where
  "insert_sorted lt x [] = [x]"
| "insert_sorted lt x (y # ys) =
     (if lt y x then y # insert_sorted lt x ys else x # y # ys)"

definition Sort :: "('a \<Rightarrow> 'a \<Rightarrow> bool) \<Rightarrow> 'a list \<Rightarrow> 'a list" where
  "Sort lt xs = foldr (insert_sorted lt) xs []"

text \<open>
  A Go map of renderables is a list of entries with distinct keys; the order of the list
  is the order in which \<open>range\<close> happens to visit the map.
\<close>

definition sortTemplates :: "(string \<times> renderable) list \<Rightarrow> string list" where
  "sortTemplates tpls = Sort (Reverse Less) (map fst tpls)"

text \<open>\<open>tpls[filename]\<close>: the entry, or the zero renderable for an absent key.\<close>

definition entry :: "(string \<times> renderable) list \<Rightarrow> string \<Rightarrow> renderable" where
  "entry tpls filename =
     (case map_of tpls filename of
        Some r \<Rightarrow> r
      | None \<Rightarrow> \<lparr>tpl = [], vals = None, basePath = []\<rparr>)"

subsection \<open>Rendering\<close>

text \<open>
  \<open>m[k] = v\<close> on a map object: the write goes to the object the reference points to;
  on the nil map it panics.
\<close>

definition store :: "heap \<Rightarrow> ref \<Rightarrow> string \<Rightarrow> val \<Rightarrow> heap option" where
  "store h r k v =
     (case r of
        None \<Rightarrow> None
      | Some a \<Rightarrow> if a < length h then Some (h[a := (h ! a)(k \<mapsto> v)]) else None)"

text \<open>
  \<open>renderTemplate\<close>. Line 340 copies the reference \<open>renderable.vals\<close>, so line 341 writes
  the \<open>Template\<close> key into the map object of the entry itself. The deferred function
  turns a panic into an error. The result is the heap afterwards, the rendered text and
  the error.
\<close>

definition renderTemplate ::
  "evaluator \<Rightarrow> Engine \<Rightarrow> heap \<Rightarrow> string \<Rightarrow> renderable \<Rightarrow> heap \<times> string \<times> go_error option" where
  "renderTemplate ev e h filename r =
     (let (h1, t) = alloc h [''Name'' \<mapsto> VString filename, ''BasePath'' \<mapsto> VString (basePath r)]
      in case store h1 (vals r) ''Template'' (VValues t) of
           None \<Rightarrow>
             (h1, [], Some (Errorf (''rendering template failed: '' @ ''assignment to entry in nil map'')))
         | Some h2 \<Rightarrow>
             (case ExecuteTemplate ev (goTemplate e) h2 filename (VValues (vals r)) of
                Failed err \<Rightarrow> (h2, [], Some (cleanupExecError filename err))
              | Panicked p \<Rightarrow> (h2, [], Some (Errorf (''rendering template failed: '' @ p)))
              | Executed buf \<Rightarrow> (h2, ReplaceAll buf ''<no value>'' [], None)))"

text \<open>\<open>errors.Join\<close>: the nil errors are dropped; with none left the result is nil.\<close>

definition errors_Join :: "go_error option list \<Rightarrow> go_error option" where
  "errors_Join errs =
     (let es = concat (map (\<lambda>e. case e of None \<Rightarrow> [] | Some x \<Rightarrow> [x]) errs)
      in if es = [] then None else Some (JoinError es))"

text \<open>
  The first loop of \<open>renderTemplates\<close>: every key in order is parsed into the shared
  namespace; the first failure ends the loop with the file name, the error text and the
  namespace as the parses before it left it.
\<close>

fun parse_loop ::
  "evaluator \<Rightarrow> (string \<times> renderable) list \<Rightarrow> template \<Rightarrow> string list \<Rightarrow>
     (string \<times> string \<times> template) + template" where
  "parse_loop ev tpls t [] = Inr t"
| "parse_loop ev tpls t (filename # keys) =
     (case New_Parse ev t filename (tpl (entry tpls filename)) of
        Inl err \<Rightarrow> Inl (filename, err, t)
      | Inr t' \<Rightarrow> parse_loop ev tpls t' keys)"

text \<open>
  The state of the second loop: the heap, the \<open>results\<close> map, the slice \<open>errs\<close>, and the
  calls of \<open>renderTemplate\<close> made so far, each with its file name and its two results.
\<close>

record render_state =
  rs_heap :: heap
  results :: "string \<rightharpoonup> string"
  errs :: "go_error option list"
  executed :: "(string \<times> string \<times> go_error option) list"

fun render_loop ::
  "evaluator \<Rightarrow> Engine \<Rightarrow> (string \<times> renderable) list \<Rightarrow> string list \<Rightarrow> render_state \<Rightarrow> render_state" where
  "render_loop ev e tpls [] st = st"
| "render_loop ev e tpls (filename # keys) st =
     (if HasPrefix (Base filename) ''_'' then render_loop ev e tpls keys st
      else (let r = entry tpls filename;
                (h', rendered, err) = renderTemplate ev e (rs_heap st) filename r
            in render_loop ev e tpls keys
                 \<lparr>rs_heap = h',
                  results = (results st)(filename \<mapsto> rendered),
                  errs = (if err \<noteq> None then errs st @ [err] else errs st),
                  executed = executed st @ [(filename, rendered, err)]\<rparr>))"

text \<open>
  \<open>renderTemplates\<close>: the engine and the heap afterwards, the calls of \<open>renderTemplate\<close>
  made, and the two results of the Go function.
\<close>

record render_result =
  res_engine :: Engine
  res_heap :: heap
  res_executed :: "(string \<times> string \<times> go_error option) list"
  res_output :: "string \<rightharpoonup> string"
  res_error :: "go_error option"

definition renderTemplates ::
  "evaluator \<Rightarrow> Engine \<Rightarrow> heap \<Rightarrow> (string \<times> renderable) list \<Rightarrow> render_result" where
  "renderTemplates ev e h tpls =
     (let keys = sortTemplates tpls in
      case parse_loop ev tpls (goTemplate e) keys of
        Inl (filename, err, t) \<Rightarrow>
          \<lparr>res_engine = e\<lparr>goTemplate := t\<rparr>, res_heap = h, res_executed = [],
           res_output = Map.empty, res_error = Some (cleanupParseError filename err)\<rparr>
      | Inr t \<Rightarrow>
          (let e' = e\<lparr>goTemplate := t\<rparr>;
               st = render_loop ev e' tpls keys
                      \<lparr>rs_heap = h, results = Map.empty,
                       errs = replicate (length tpls) None, executed = []\<rparr>
           in \<lparr>res_engine = e', res_heap = rs_heap st, res_executed = executed st,
               res_output = results st, res_error = errors_Join (errs st)\<rparr>))"

section \<open>The chart tree walker (engine.go)\<close>

subsection \<open>Paths and chart types\<close>

text \<open>
  \<open>path.Clean\<close> on the elements of a path: empty elements and \<open>.\<close> are dropped, \<open>..\<close>
  removes the element before it, or stays when the path is not rooted and nothing is left
  to remove. \<open>clean_elems\<close> keeps the elements of the result so far in reverse.
\<close>

fun clean_elems :: "bool \<Rightarrow> string list \<Rightarrow> string list \<Rightarrow> string list" where
  "clean_elems rooted out [] = out"
| "clean_elems rooted out (el # els) =
     (if el = [] \<or> el = ''.'' then clean_elems rooted out els
      else if el = ''..'' then
        (case out of
           [] \<Rightarrow> clean_elems rooted (if rooted then [] else [''..'']) els
         | el' # below \<Rightarrow>
             if el' = ''..'' then clean_elems rooted (''..'' # out) els
             else clean_elems rooted below els)
      else clean_elems rooted (el # out) els)"

definition Clean :: "string \<Rightarrow> string" where
  "Clean p =
     (if p = [] then ''.''
      else (let rooted = (hd p = CHR ''/'');
                res = (if rooted then ''/'' else []) @ Join (rev (clean_elems rooted [] (Split p ''/''))) ''/''
            in if res = [] then ''.'' else res))"

text \<open>\<open>path.Join\<close> of two elements: the non-empty ones joined by a slash and cleaned.\<close>

definition path_Join :: "string \<Rightarrow> string \<Rightarrow> string" where
  "path_Join a b =
     (if a = [] \<and> b = [] then []
      else Clean (if a = [] then b else a @ ''/'' @ b))"

text \<open>
  \<open>strings.EqualFold\<close> against a word of ASCII letters none of which has a fold outside
  ASCII, as \<open>library\<close> is: equality after the ASCII capitals are lowered.
\<close>

definition lower :: "char \<Rightarrow> char" where
  "lower c = (if CHR ''A'' \<le> c \<and> c \<le> CHR ''Z'' then char_of (of_char c + (32 :: nat)) else c)"

definition EqualFold :: "string \<Rightarrow> string \<Rightarrow> bool" where
  "EqualFold s t = (map lower s = map lower t)"

text \<open>
  A chart of the Helm library: its metadata (a pointer, which may be nil), its template
  files (pointers: name and data, or nil), its other files and its dependencies. The
  library keeps a parent pointer in every chart, from which it computes \<open>IsRoot\<close> and
  \<open>ChartFullPath\<close>; the walk over the tree carries the full path of the parent instead,
  and none at the root.
\<close>

datatype chart =
  Chart (Metadata: "metadata option") (Templates: "(string \<times> string) option list")
        (Files: "(string \<times> string) list") (Dependencies: "chart list")

definition Name :: "chart \<Rightarrow> string" where
  "Name c = (case Metadata c of None \<Rightarrow> [] | Some m \<Rightarrow> md_Name m)"

definition ChartFullPath :: "string option \<Rightarrow> chart \<Rightarrow> string" where
  "ChartFullPath parent c =
     (case parent of None \<Rightarrow> Name c | Some p \<Rightarrow> p @ ''/charts/'' @ Name c)"

definition isLibraryChart :: "chart \<Rightarrow> bool" where
  "isLibraryChart c =
     EqualFold (case Metadata c of None \<Rightarrow> [] | Some m \<Rightarrow> md_Type m) ''library''"

definition isTemplateValid :: "chart \<Rightarrow> string \<Rightarrow> bool" where
  "isTemplateValid ch templateName =
     (if isLibraryChart ch then HasPrefix (Base templateName) ''_'' else True)"

subsection \<open>\<open>recAllTpls\<close>\<close>

text \<open>\<open>templates[key] = r\<close> on the map of renderables: the entry is replaced or added.\<close>

fun assign :: "(string \<times> renderable) list \<Rightarrow> string \<Rightarrow> renderable \<Rightarrow> (string \<times> renderable) list" where
  "assign [] key r = [(key, r)]"
| "assign ((k, x) # kvs) key r = (if k = key then (k, r) # kvs else (k, x) # assign kvs key r)"

text \<open>
  The scope \<open>next\<close> of a chart, as lines 436 to 451 build it from the scope \<open>vals\<close> handed
  down: the map literal, with the two map objects made for it, and the \<open>Values\<close> key set
  for the root from \<open>vals["Values"]\<close> and for any other chart from the table
  \<open>Values.name\<close> of \<open>vals\<close>, when there is one.
\<close>

definition next_scope ::
  "heap \<Rightarrow> ref \<Rightarrow> metadata \<Rightarrow> bool \<Rightarrow> (string \<times> string) list \<Rightarrow> ref \<Rightarrow> ref \<Rightarrow> table" where
  "next_scope h vs m isRoot files emptyValues subCharts =
     (let next = [''Chart'' \<mapsto> VChart m isRoot,
                  ''Files'' \<mapsto> VFiles files,
                  ''Release'' \<mapsto> index (deref h vs) ''Release'',
                  ''Capabilities'' \<mapsto> index (deref h vs) ''Capabilities'',
                  ''chartutil.Values'' \<mapsto> VValues emptyValues,
                  ''Subcharts'' \<mapsto> VMap subCharts]
      in if isRoot then next(''Values'' \<mapsto> index (deref h vs) ''Values'')
         else (case Table h vs (''Values.'' @ md_Name m) of
                 Inr t \<Rightarrow> next(''Values'' \<mapsto> VValues t)
               | Inl err \<Rightarrow> next))"

text \<open>The state of the walk: the heap and the map \<open>templates\<close>.\<close>

record walk =
  w_heap :: heap
  w_templates :: "(string \<times> renderable) list"

text \<open>The last loop of \<open>recAllTpls\<close>, over the template files of the chart.\<close>

fun templates_loop ::
  "chart \<Rightarrow> string \<Rightarrow> ref \<Rightarrow> (string \<times> string) option list \<Rightarrow>
   (string \<times> renderable) list \<Rightarrow> (string \<times> renderable) list" where
  "templates_loop c newParentID next [] templates = templates"
| "templates_loop c newParentID next (None # ts) templates =
     templates_loop c newParentID next ts templates"
| "templates_loop c newParentID next (Some (tname, data) # ts) templates =
     (if \<not> isTemplateValid c tname then templates_loop c newParentID next ts templates
      else templates_loop c newParentID next ts
             (assign templates (path_Join newParentID tname)
                \<lparr>tpl = data, vals = next, basePath = path_Join newParentID ''templates''\<rparr>))"

text \<open>
  \<open>recAllTpls\<close> and its loop over the dependencies. Dereferencing nil metadata panics.
  Each child is walked with \<open>next\<close> as its \<open>vals\<close>, and the scope it returns is stored
  under its name in the map object \<open>subCharts\<close>.
\<close>

fun recAllTpls :: "string option \<Rightarrow> chart \<Rightarrow> walk \<Rightarrow> ref \<Rightarrow> (walk \<times> ref) outcome"
and dependencies_loop :: "string \<Rightarrow> ref \<Rightarrow> ref \<Rightarrow> chart list \<Rightarrow> walk \<Rightarrow> walk outcome" where
  "recAllTpls parent (Chart md ts fs deps) w vs =
     (case md of
        None \<Rightarrow> Panics ''invalid memory address or nil pointer dereference''
      | Some m \<Rightarrow>
          (let (h1, subCharts) = alloc (w_heap w) Map.empty;
               (h2, emptyValues) = alloc h1 Map.empty;
               (h3, next) = alloc h2 (next_scope h2 vs m (parent = None) fs emptyValues subCharts);
               newParentID = ChartFullPath parent (Chart md ts fs deps)
           in case dependencies_loop newParentID next subCharts deps (w\<lparr>w_heap := h3\<rparr>) of
                Panics p \<Rightarrow> Panics p
              | Returns w' \<Rightarrow>
                  Returns (w'\<lparr>w_templates :=
                               templates_loop (Chart md ts fs deps) newParentID next ts (w_templates w')\<rparr>,
                           next)))"
| "dependencies_loop newParentID next subCharts [] w = Returns w"
| "dependencies_loop newParentID next subCharts (child # children) w =
     (case recAllTpls (Some newParentID) child w next of
        Panics p \<Rightarrow> Panics p
      | Returns (w', childScope) \<Rightarrow>
          (case store (w_heap w') subCharts (Name child) (VMap childScope) of
             None \<Rightarrow> Panics ''assignment to entry in nil map''
           | Some h' \<Rightarrow> dependencies_loop newParentID next subCharts children (w'\<lparr>w_heap := h'\<rparr>)))"

definition allTemplates :: "heap \<Rightarrow> chart \<Rightarrow> ref \<Rightarrow> walk outcome" where
  "allTemplates h c vs =
     (case recAllTpls None c \<lparr>w_heap = h, w_templates = []\<rparr> vs of
        Panics p \<Rightarrow> Panics p
      | Returns (w, next) \<Rightarrow> Returns w)"

section \<open>\<open>include\<close> (engine.go)\<close>

text \<open>
  \<open>include\<close> is called by the evaluator while it executes a template, and executes a
  template itself. What the evaluator does with the template registered under a name is
  here a \<open>body\<close>: it is done, it writes text and goes on, it stops with an error of its
  own, it panics (a run-time error in a function it calls), or it calls \<open>include\<close> and
  goes on with the string returned. A template is a function from the name and the data
  to the body, or to nothing when no template has the name. When a call of \<open>include\<close>
  returns an error, the evaluator stops with an \<open>ExecError\<close> around it; a panic passes
  through the evaluator and through \<open>include\<close>.
\<close>

datatype body =
    Done
  | Write string body
  | Stop string
  | Crash string
  | CallInclude string val "string \<Rightarrow> body"

type_synonym templates = "string \<Rightarrow> val \<Rightarrow> body option"

text \<open>\<open>includedNames[name]\<close>: the depth recorded for a name, zero for an absent one.\<close>

definition depth :: "(string \<rightharpoonup> int) \<Rightarrow> string \<Rightarrow> int" where
  "depth includedNames name = (case includedNames name of None \<Rightarrow> 0 | Some v \<Rightarrow> v)"

text \<open>
  The closure made by \<open>includeFun\<close>, with the map \<open>includedNames\<close> passed through, and the
  evaluator executing a body. The decrement is no deferred call: a panic leaves the
  depth as the increment made it. Nothing bounds the calls but the counter, so both
  functions count their steps down from a number given: \<open>None\<close> means the steps ran out,
  and a result is a result of the program.
\<close>

fun includeFun ::
  "nat \<Rightarrow> templates \<Rightarrow> (string \<rightharpoonup> int) \<Rightarrow> string \<Rightarrow> val \<Rightarrow>
   ((string \<times> go_error option) outcome \<times> (string \<rightharpoonup> int)) option"
and execute_body ::
  "nat \<Rightarrow> templates \<Rightarrow> (string \<rightharpoonup> int) \<Rightarrow> string \<Rightarrow> body \<Rightarrow>
   ((string \<times> go_error option) outcome \<times> (string \<rightharpoonup> int)) option" where
  "includeFun 0 ts includedNames name data = None"
| "includeFun (Suc n) ts includedNames name data =
     (case includedNames name of
        Some v \<Rightarrow>
          if v > recursionMaxNums then
            Some (Returns ([], Some (Errorf (''rendering template has a nested reference name: ''
                                             @ name @ '': unable to execute template''))),
                  includedNames)
          else
            (case (case ts name data of
                     None \<Rightarrow> Some (Returns ([], Some (Errorf (''template: no template '' @ name))),
                                   includedNames(name \<mapsto> v + 1))
                   | Some b \<Rightarrow> execute_body n ts (includedNames(name \<mapsto> v + 1)) [] b) of
               None \<Rightarrow> None
             | Some (Panics p, names') \<Rightarrow> Some (Panics p, names')
             | Some (Returns (buf, err), names') \<Rightarrow>
                 Some (Returns (buf, err), names'(name \<mapsto> depth names' name - 1)))
      | None \<Rightarrow>
          (case (case ts name data of
                   None \<Rightarrow> Some (Returns ([], Some (Errorf (''template: no template '' @ name))),
                                 includedNames(name \<mapsto> 1))
                 | Some b \<Rightarrow> execute_body n ts (includedNames(name \<mapsto> 1)) [] b) of
             None \<Rightarrow> None
           | Some (Panics p, names') \<Rightarrow> Some (Panics p, names')
           | Some (Returns (buf, err), names') \<Rightarrow>
               Some (Returns (buf, err), names'(name \<mapsto> depth names' name - 1))))"
| "execute_body 0 ts includedNames buf b = None"
| "execute_body (Suc n) ts includedNames buf Done = Some (Returns (buf, None), includedNames)"
| "execute_body (Suc n) ts includedNames buf (Write s b) =
     execute_body n ts includedNames (buf @ s) b"
| "execute_body (Suc n) ts includedNames buf (Stop msg) =
     Some (Returns (buf, Some (ExecError msg)), includedNames)"
| "execute_body (Suc n) ts includedNames buf (Crash p) = Some (Panics p, includedNames)"
| "execute_body (Suc n) ts includedNames buf (CallInclude name data k) =
     (case includeFun n ts includedNames name data of
        None \<Rightarrow> None
      | Some (Panics p, names') \<Rightarrow> Some (Panics p, names')
      | Some (Returns (s, Some err), names') \<Rightarrow>
          Some (Returns (buf, Some (ExecError (''error calling include: '' @ Error err))), names')
      | Some (Returns (s, None), names') \<Rightarrow> execute_body n ts names' buf (k s))"

text \<open>
  The error of a refused call after the evaluator has stopped \<open>k\<close> times around it.
\<close>

fun nested_error :: "nat \<Rightarrow> string \<Rightarrow> go_error" where
  "nested_error 0 name =
     Errorf (''rendering template has a nested reference name: '' @ name
             @ '': unable to execute template'')"
| "nested_error (Suc k) name = ExecError (''error calling include: '' @ Error (nested_error k name))"

text \<open>
  Two templates for the examples. \<open>loop\<close> includes itself whatever its data. \<open>count\<close>
  includes itself on a positive number, with the number less one, and writes what the
  call returns; on zero it writes \<open>bottom\<close>. Included with the number \<open>n\<close> it includes
  itself exactly \<open>n\<close> times.
\<close>

definition loop_template :: templates where
  "loop_template name data =
     (if name = ''loop'' then Some (CallInclude ''loop'' data (\<lambda>s. Write s Done)) else None)"

definition count_template :: templates where
  "count_template name data =
     (if name = ''count'' then
        (case data of
           VNumber n \<Rightarrow>
             if n > 0 then Some (CallInclude ''count'' (VNumber (n - 1)) (\<lambda>s. Write s Done))
             else Some (Write ''bottom'' Done)
         | _ \<Rightarrow> Some (Write ''bottom'' Done))
      else None)"

section \<open>An evaluator and inputs for the examples\<close>

text \<open>
  A stand-in for the evaluator on texts without actions, which render as themselves. It
  knows two texts with an action: the unclosed action, which does not parse, and a call
  of \<open>fail\<close>, which fails when executed, with the error text \<open>text/template\<close> gives.
\<close>

definition example_evaluator :: evaluator where
  "example_evaluator =
     \<lparr>parse_error = (\<lambda>name text.
        if text = ''{{'' then Some (''template: '' @ name @ '':1: unclosed action'') else None),
      clone_error = (\<lambda>t. None),
      ExecuteTemplate = (\<lambda>t h name data.
        case tmpl t name of
          None \<Rightarrow> Failed (Errorf (''template: no template '' @ name))
        | Some text \<Rightarrow>
            if text = ''{{ fail `no` }}''
            then Failed (ExecError (''template: '' @ name @ '':1:3: executing '' @ name
                                    @ '' at <fail `no`>: error calling fail: '' @ warnWrap ''no''))
            else Executed text),
      quote = (\<lambda>s. s)\<rparr>"

text \<open>Two maps of entries and the options for the examples.\<close>

definition example_tpls :: "(string \<times> renderable) list" where
  "example_tpls =
     [(''c/t/a.yaml'', \<lparr>tpl = ''a: <no value>'', vals = Some 0, basePath = ''c/t''\<rparr>),
      (''c/t/_h.tpl'', \<lparr>tpl = ''helper'', vals = Some 0, basePath = ''c/t''\<rparr>),
      (''c/t/bad.yaml'', \<lparr>tpl = ''{{ fail `no` }}'', vals = Some 0, basePath = ''c/t''\<rparr>)]"


definition example_options :: engineOptions where
  "example_options = \<lparr>EnableDNS = False, Strict = False, LintMode = False\<rparr>"


text \<open>The engine after the text \<open>a: <no value>\<close> has been parsed under one key.\<close>

definition example_engine :: Engine where
  "example_engine =
     \<lparr>options = example_options,
      goTemplate = \<lparr>tmpl_name = ''gotpl'', tmpl_option = ''missingkey=zero'',
                    tmpl = [''c/t/a.yaml'' \<mapsto> ''a: <no value>'']\<rparr>\<rparr>"

text \<open>
  A chart \<open>app\<close> with the two sub-charts \<open>db\<close> and \<open>cache\<close>, and the values of a caller:
  the top-level table with \<open>Values = {replicas: 3, db: {port: 5432}}\<close>, which has a section
  for \<open>db\<close> and none for \<open>cache\<close>.
\<close>

definition example_chart :: chart where
  "example_chart =
     Chart (Some \<lparr>md_Name = ''app'', md_Type = ''application''\<rparr>)
       [Some (''templates/app.yaml'', ''replicas'')] []
       [Chart (Some \<lparr>md_Name = ''db'', md_Type = ''application''\<rparr>)
          [Some (''templates/db.yaml'', ''port'')] [] [],
        Chart (Some \<lparr>md_Name = ''cache'', md_Type = ''application''\<rparr>)
          [Some (''templates/c.yaml'', ''size'')] [] []]"

definition example_values :: heap where
  "example_values =
     [[''Values'' \<mapsto> VMap (Some 1)],
      [''replicas'' \<mapsto> VNumber 3, ''db'' \<mapsto> VMap (Some 2)],
      [''port'' \<mapsto> VNumber 5432]]"

section \<open>The processing order\<close>

lemma set_insert_sorted: "set (insert_sorted lt x ys) = insert x (set ys)"
  by (induction ys) auto

lemma length_insert_sorted: "length (insert_sorted lt x ys) = Suc (length ys)"
  by (induction ys) auto

lemma set_Sort: "set (Sort lt xs) = set xs"
  by (induction xs) (auto simp: Sort_def set_insert_sorted)

lemma length_Sort: "length (Sort lt xs) = length xs"
  by (induction xs) (auto simp: Sort_def length_insert_sorted)

lemma sorted_insert_sorted:
  assumes trans: "\<And>a b c. lt a b \<Longrightarrow> lt b c \<Longrightarrow> lt a c"
    and total: "\<And>a b. a \<noteq> b \<Longrightarrow> lt a b \<or> lt b a"
  shows "sorted_wrt lt ys \<Longrightarrow> x \<notin> set ys \<Longrightarrow> sorted_wrt lt (insert_sorted lt x ys)"
proof (induction ys)
  case Nil
  then show ?case by simp
next
  case (Cons y ys)
  show ?case
  proof (cases "lt y x")
    case True
    with Cons show ?thesis by (auto simp: set_insert_sorted)
  next
    case False
    with Cons.prems(2) total [of x y] have xy: "lt x y" by auto
    with Cons.prems(1) trans have "\<forall>z \<in> set ys. lt x z" by auto
    with xy False Cons.prems(1) show ?thesis by simp
  qed
qed

lemma sorted_Sort:
  assumes trans: "\<And>a b c. lt a b \<Longrightarrow> lt b c \<Longrightarrow> lt a c"
    and total: "\<And>a b. a \<noteq> b \<Longrightarrow> lt a b \<or> lt b a"
  shows "distinct xs \<Longrightarrow> sorted_wrt lt (Sort lt xs)"
proof (induction xs)
  case Nil
  then show ?case by (simp add: Sort_def)
next
  case (Cons x xs)
  then have "sorted_wrt lt (Sort lt xs)" and "x \<notin> set (Sort lt xs)"
    by (simp_all add: set_Sort)
  then have "sorted_wrt lt (insert_sorted lt x (Sort lt xs))"
    using trans total by (rule sorted_insert_sorted [rotated 2])
  then show ?case by (simp add: Sort_def)
qed

lemma sorted_wrt_same_set:
  assumes asym: "\<And>a b. lt a b \<Longrightarrow> \<not> lt b a"
  shows "sorted_wrt lt xs \<Longrightarrow> sorted_wrt lt ys \<Longrightarrow> set xs = set ys \<Longrightarrow> xs = ys"
proof (induction xs arbitrary: ys)
  case Nil
  then show ?case by simp
next
  case (Cons x xs)
  then obtain y ys' where ys: "ys = y # ys'" by (cases ys) auto
  have irr: "\<And>a. \<not> lt a a" using asym by blast
  have "x = y"
  proof (rule ccontr)
    assume ne: "x \<noteq> y"
    with Cons.prems(3) ys have "x \<in> set ys'" and "y \<in> set xs" by auto
    with Cons.prems(1,2) ys have "lt y x" and "lt x y" by auto
    with asym show False by blast
  qed
  moreover have "x \<notin> set xs" and "y \<notin> set ys'"
    using Cons.prems(1,2) ys irr by auto
  ultimately have "set xs = set ys'" using Cons.prems(3) ys by auto
  with Cons.IH [of ys'] Cons.prems(1,2) ys \<open>x = y\<close> show ?case by simp
qed

lemma Less_iff:
  "Less a b \<longleftrightarrow> Count a ''/'' < Count b ''/'' \<or> (Count a ''/'' = Count b ''/'' \<and> a < b)"
  by (auto simp: Less_def Compare_def Let_def)

lemma Reverse_Less_trans: "Reverse Less a b \<Longrightarrow> Reverse Less b c \<Longrightarrow> Reverse Less a c"
  by (auto simp: Reverse_def Less_iff)

lemma Reverse_Less_total: "a \<noteq> b \<Longrightarrow> Reverse Less a b \<or> Reverse Less b a"
  by (auto simp: Reverse_def Less_iff)

lemma Reverse_Less_asym: "Reverse Less a b \<Longrightarrow> \<not> Reverse Less b a"
  by (auto simp: Reverse_def Less_iff)

lemma sorted_Sort_Reverse_Less:
  assumes "distinct xs"
  shows "sorted_wrt (Reverse Less) (Sort (Reverse Less) xs)"
proof (rule sorted_Sort)
  show "Reverse Less a c" if "Reverse Less a b" and "Reverse Less b c" for a b c
    using that by (rule Reverse_Less_trans)
  show "Reverse Less a b \<or> Reverse Less b a" if "a \<noteq> b" for a b
    using that by (rule Reverse_Less_total)
  show "distinct xs" by (fact assms)
qed

lemma sorted_arrangement_unique:
  assumes "distinct ks" and "set ys = set ks" and "length ys = length ks"
    and "sorted_wrt (\<lambda>a b. \<not> Reverse Less b a) ys"
  shows "ys = Sort (Reverse Less) ks"
proof -
  have "card (set ys) = length ys"
    using assms(1-3) by (simp add: distinct_card)
  then have d: "distinct ys" by (simp add: card_distinct)
  have "sorted_wrt (Reverse Less) ys"
    using assms(4) d
  proof (induction ys)
    case Nil
    then show ?case by simp
  next
    case (Cons y ys)
    have "Reverse Less y x" if "x \<in> set ys" for x
    proof -
      from that Cons.prems have "x \<noteq> y" and "\<not> Reverse Less x y" by auto
      then show ?thesis using Reverse_Less_total [of x y] by simp
    qed
    with Cons show ?case by simp
  qed
  moreover have "sorted_wrt (Reverse Less) (Sort (Reverse Less) ks)"
    using assms(1) by (rule sorted_Sort_Reverse_Less)
  moreover have "set ys = set (Sort (Reverse Less) ks)"
    using assms(2) by (simp add: set_Sort)
  ultimately show ?thesis
    using Reverse_Less_asym by (rule sorted_wrt_same_set [rotated])
qed

text \<open>
  The order in the words of the specification: a key comes before another when it has
  more path separators or, with as many, when it is the smaller one lexicographically.
\<close>

definition spec_before :: "string \<Rightarrow> string \<Rightarrow> bool" where
  "spec_before a b \<longleftrightarrow>
     Count b ''/'' < Count a ''/'' \<or> (Count a ''/'' = Count b ''/'' \<and> a < b)"

text \<open>
  Claim C2, as stated, fails: of two keys with as many separators the greater one comes
  first, because \<open>sort.Reverse\<close> reverses the whole comparison.
\<close>

theorem sortTemplates_not_ascending:
  "\<not> sorted_wrt spec_before
       (sortTemplates [(''a'', \<lparr>tpl = [], vals = None, basePath = []\<rparr>),
                       (''b'', \<lparr>tpl = [], vals = None, basePath = []\<rparr>)])"
  by (simp add: sortTemplates_def Sort_def Reverse_def Less_def Count.simps Compare_def
      spec_before_def)

text \<open>
  Claim C2, amended. For a map of renderable entries (distinct keys), \<open>sortTemplates\<close>
  returns the keys of the map, each once, ordered by descending count of path separators
  and, among keys with as many separators, by descending lexicographic order.
\<close>

theorem sortTemplates_order:
  assumes "distinct (map fst tpls)"
  shows "set (sortTemplates tpls) = fst ` set tpls \<and>
         length (sortTemplates tpls) = length tpls \<and>
         sorted_wrt (\<lambda>a b. Count b ''/'' < Count a ''/'' \<or>
                           (Count a ''/'' = Count b ''/'' \<and> b < a)) (sortTemplates tpls)"
proof -
  have "sorted_wrt (Reverse Less) (sortTemplates tpls)"
    unfolding sortTemplates_def using assms by (rule sorted_Sort_Reverse_Less)
  moreover have "Reverse Less = (\<lambda>a b. Count b ''/'' < Count a ''/'' \<or>
                           (Count a ''/'' = Count b ''/'' \<and> b < a))"
    by (auto simp: Reverse_def Less_iff fun_eq_iff)
  ultimately show ?thesis
    by (simp add: sortTemplates_def set_Sort length_Sort)
qed


theorem sortTemplates_order_witness:
  "distinct (map fst [(''t/a'', \<lparr>tpl = [], vals = None, basePath = []\<rparr>),
                       (''t/sub/b'', \<lparr>tpl = [], vals = None, basePath = []\<rparr>),
                       (''t/c'', \<lparr>tpl = [], vals = None, basePath = []\<rparr>)]) \<and>
   sortTemplates [(''t/a'', \<lparr>tpl = [], vals = None, basePath = []\<rparr>),
                  (''t/sub/b'', \<lparr>tpl = [], vals = None, basePath = []\<rparr>),
                  (''t/c'', \<lparr>tpl = [], vals = None, basePath = []\<rparr>)]
     = [''t/sub/b'', ''t/c'', ''t/a''] \<and>
   sorted_wrt (\<lambda>a b. Count b ''/'' < Count a ''/'' \<or>
                     (Count a ''/'' = Count b ''/'' \<and> b < a))
     (sortTemplates [(''t/a'', \<lparr>tpl = [], vals = None, basePath = []\<rparr>),
                     (''t/sub/b'', \<lparr>tpl = [], vals = None, basePath = []\<rparr>),
                     (''t/c'', \<lparr>tpl = [], vals = None, basePath = []\<rparr>)])"
proof -
  let ?tpls = "[(''t/a'', \<lparr>tpl = [], vals = None, basePath = []\<rparr>),
                (''t/sub/b'', \<lparr>tpl = [], vals = None, basePath = []\<rparr>),
                (''t/c'', \<lparr>tpl = [], vals = None, basePath = []\<rparr>)]"
  have d: "distinct (map fst ?tpls)" by simp
  have e: "sortTemplates ?tpls = [''t/sub/b'', ''t/c'', ''t/a'']"
    by (simp add: sortTemplates_def Sort_def Reverse_def Less_def Count.simps Compare_def)
  from sortTemplates_order [OF d] d e show ?thesis by blast
qed

section \<open>The function \<open>required\<close>\<close>

lemma warnStartDelim_unbordered:
  "warnStartDelim \<noteq> [] \<and> hd warnStartDelim \<notin> set (tl warnStartDelim)"
  by (simp add: warnStartDelim_def)

lemma warnRegex_warnWrap:
  assumes "\<not> sublist warnStartDelim ctx"
  shows "warnRegex_FindStringSubmatch (ctx @ warnWrap m) = [warnWrap m, m]"
proof -
  have "\<not> sublist warnStartDelim (ctx @ butlast warnStartDelim)"
    using assms warnStartDelim_unbordered by (simp add: sublist_butlast)
  then have "Cut (ctx @ warnStartDelim @ (m @ warnEndDelim)) warnStartDelim
             = Some (ctx, m @ warnEndDelim)"
    using warnStartDelim_unbordered by (simp add: Cut_append)
  moreover have "Cut (rev warnEndDelim @ rev m) (rev warnEndDelim) = Some ([], rev m)"
    by (rule Cut_prefix) (simp add: warnEndDelim_def)
  ultimately show ?thesis
    by (simp add: warnRegex_FindStringSubmatch_def warnWrap_def)
qed

lemma SplitN_3:
  assumes "\<not> sublist '': '' a" and "\<not> sublist '': '' b"
  shows "SplitN (a @ '': '' @ b @ '': '' @ c) '': '' 3 = [a, b, c]"
proof -
  have "Cut (a @ '': '' @ (b @ '': '' @ c)) '': '' = Some (a, b @ '': '' @ c)"
    using assms(1) by (rule Cut_colon)
  moreover have "Cut (b @ '': '' @ c) '': '' = Some (b, c)"
    using assms(2) by (rule Cut_colon)
  ultimately show ?thesis by (simp add: numeral_3_eq_3)
qed

lemma cleanupExecError_tokens:
  "SplitN text '': '' 3 = [a, b, c] \<Longrightarrow> warnRegex_FindStringSubmatch c = [w, g] \<Longrightarrow>
   cleanupExecError filename (ExecError text) = Errorf (''execution error at ('' @ b @ ''): '' @ g)"
  by (simp add: cleanupExecError_def Let_def)

lemma cleanupExecError_warnWrap:
  assumes "\<not> sublist '': '' pre" and "\<not> sublist '': '' loc"
    and "\<not> sublist warnStartDelim ctx"
  shows "cleanupExecError filename (ExecError (pre @ '': '' @ loc @ '': '' @ ctx @ warnWrap m))
         = Errorf (''execution error at ('' @ loc @ ''): '' @ m)"
  by (rule cleanupExecError_tokens [OF SplitN_3 warnRegex_warnWrap]) (fact assms)+

text \<open>
  Claim C5. \<open>required m v\<close> returns \<open>v\<close> unchanged and no error when \<open>v\<close> is not nil and
  not the empty string. Otherwise, outside lint mode, it fails with the error whose text
  is \<open>m\<close> between the two delimiters and nothing else: the group the engine's pattern
  takes from that text is \<open>m\<close>, and the message \<open>cleanupExecError\<close> makes of the
  evaluator's error around it ends in \<open>m\<close> alone after the location. In lint mode it
  logs one line and returns the empty string and no error.
\<close>

theorem required_contract:
  "(v \<noteq> VNil \<and> v \<noteq> VString [] \<longrightarrow> required opts m v = ((v, None), [])) \<and>
   ((v = VNil \<or> v = VString []) \<and> \<not> LintMode opts \<longrightarrow>
      required opts m v = ((v, Some (Errorf (warnWrap m))), []) \<and>
      Error (Errorf (warnWrap m)) = warnStartDelim @ m @ warnEndDelim \<and>
      warnRegex_FindStringSubmatch (Error (Errorf (warnWrap m))) = [warnWrap m, m] \<and>
      (\<forall>pre loc ctx filename.
         \<not> sublist '': '' pre \<and> \<not> sublist '': '' loc \<and> \<not> sublist warnStartDelim ctx \<longrightarrow>
         cleanupExecError filename
           (ExecError (pre @ '': '' @ loc @ '': '' @ ctx @ Error (Errorf (warnWrap m))))
         = Errorf (''execution error at ('' @ loc @ ''): '' @ m))) \<and>
   ((v = VNil \<or> v = VString []) \<and> LintMode opts \<longrightarrow>
      required opts m v = ((VString [], None), [''[INFO] Missing required value: '' @ m]))"
proof (intro conjI impI allI)
  assume "v \<noteq> VNil \<and> v \<noteq> VString []"
  then show "required opts m v = ((v, None), [])"
    by (cases v) (simp_all add: required_def)
next
  assume "(v = VNil \<or> v = VString []) \<and> \<not> LintMode opts"
  then show "required opts m v = ((v, Some (Errorf (warnWrap m))), [])"
    by (auto simp: required_def)
next
  show "Error (Errorf (warnWrap m)) = warnStartDelim @ m @ warnEndDelim"
    by (simp add: warnWrap_def)
next
  show "warnRegex_FindStringSubmatch (Error (Errorf (warnWrap m))) = [warnWrap m, m]"
    using warnRegex_warnWrap [of "[]" m] by (simp add: warnStartDelim_def)
next
  fix pre loc ctx filename
  assume "\<not> sublist '': '' pre \<and> \<not> sublist '': '' loc \<and> \<not> sublist warnStartDelim ctx"
  then have "cleanupExecError filename
           (ExecError (pre @ '': '' @ loc @ '': '' @ ctx @ warnWrap m))
         = Errorf (''execution error at ('' @ loc @ ''): '' @ m)"
    by (intro cleanupExecError_warnWrap) simp_all
  then show "cleanupExecError filename
           (ExecError (pre @ '': '' @ loc @ '': '' @ ctx @ Error (Errorf (warnWrap m))))
         = Errorf (''execution error at ('' @ loc @ ''): '' @ m)"
    by (simp only: Error.simps)
next
  assume "(v = VNil \<or> v = VString []) \<and> LintMode opts"
  then show "required opts m v = ((VString [], None), [''[INFO] Missing required value: '' @ m])"
    by (auto simp: required_def)
qed

theorem required_contract_witness:
  "required \<lparr>EnableDNS = False, Strict = False, LintMode = False\<rparr> ''msg'' (VString ''x'')
     = ((VString ''x'', None), []) \<and>
   required \<lparr>EnableDNS = False, Strict = False, LintMode = False\<rparr> ''msg'' VNil
     = ((VNil, Some (Errorf ''HELM_ERR_STARTmsgHELM_ERR_END'')), []) \<and>
   cleanupExecError ''f''
     (ExecError (''template'' @ '': '' @ ''f:1:3'' @ '': ''
                 @ ''executing f at <required `msg` nil>: error calling required: ''
                 @ ''HELM_ERR_STARTmsgHELM_ERR_END''))
     = Errorf ''execution error at (f:1:3): msg'' \<and>
   required \<lparr>EnableDNS = False, Strict = False, LintMode = True\<rparr> ''msg'' VNil
     = ((VString [], None), [''[INFO] Missing required value: msg''])"
proof -
  let ?normal = "\<lparr>EnableDNS = False, Strict = False, LintMode = False\<rparr>"
  let ?lint = "\<lparr>EnableDNS = False, Strict = False, LintMode = True\<rparr>"
  let ?ctx = "''executing f at <required `msg` nil>: error calling required: ''"
  have a: "required ?normal ''msg'' (VString ''x'') = ((VString ''x'', None), [])"
    using required_contract [of "VString ''x''" ?normal "''msg''"] by simp
  have n: "(VNil = VNil \<or> VNil = VString []) \<and> \<not> LintMode ?normal" by simp
  have b: "required ?normal ''msg'' VNil = ((VNil, Some (Errorf (warnWrap ''msg''))), [])"
    using required_contract [of VNil ?normal "''msg''"] n by blast
  have h: "\<not> sublist '': '' ''template'' \<and> \<not> sublist '': '' ''f:1:3'' \<and>
           \<not> sublist warnStartDelim ?ctx"
    by (simp add: sublist_code warnStartDelim_def)
  have "\<forall>pre loc ctx filename.
         \<not> sublist '': '' pre \<and> \<not> sublist '': '' loc \<and> \<not> sublist warnStartDelim ctx \<longrightarrow>
         cleanupExecError filename
           (ExecError (pre @ '': '' @ loc @ '': '' @ ctx @ Error (Errorf (warnWrap ''msg''))))
         = Errorf (''execution error at ('' @ loc @ ''): '' @ ''msg'')"
    using required_contract [of VNil ?normal "''msg''"] n by blast
  with h have c: "cleanupExecError ''f''
           (ExecError (''template'' @ '': '' @ ''f:1:3'' @ '': '' @ ?ctx @ Error (Errorf (warnWrap ''msg''))))
         = Errorf (''execution error at ('' @ ''f:1:3'' @ ''): '' @ ''msg'')"
    by blast
  have l: "(VNil = VNil \<or> VNil = VString []) \<and> LintMode ?lint" by simp
  have d: "required ?lint ''msg'' VNil = ((VString [], None), [''[INFO] Missing required value: '' @ ''msg''])"
    using required_contract [of VNil ?lint "''msg''"] l by blast
  have w: "warnWrap ''msg'' = ''HELM_ERR_STARTmsgHELM_ERR_END''"
    by (simp add: warnWrap_def warnStartDelim_def warnEndDelim_def)
  from a b c d w show ?thesis by simp
qed

section \<open>The render pass\<close>

lemma renderTemplate_error_empty:
  "renderTemplate ev e h filename r = (h', rendered, Some err) \<Longrightarrow> rendered = []"
  by (auto simp: renderTemplate_def alloc_def split: option.splits exec_result.splits)


lemma parse_loop_Inr:
  "\<forall>k \<in> set keys. parse_error ev k (tpl (entry tpls k)) = None \<Longrightarrow>
   parse_loop ev tpls t keys =
     Inr (t\<lparr>tmpl := (\<lambda>k. if k \<in> set keys then Some (tpl (entry tpls k)) else tmpl t k)\<rparr>)"
proof (induction keys arbitrary: t)
  case Nil
  then show ?case by simp
next
  case (Cons k keys)
  then show ?case
    by (auto simp: New_Parse_def fun_eq_iff intro!: template.equality)
qed


lemma render_loop_executed:
  "fst ` set (executed (render_loop ev e tpls keys st)) =
     fst ` set (executed st) \<union> {k \<in> set keys. \<not> HasPrefix (Base k) ''_''}"
  by (induction keys arbitrary: st) (auto simp: Let_def split: prod.splits)

lemma render_loop_dom:
  "dom (results (render_loop ev e tpls keys st)) =
     dom (results st) \<union> {k \<in> set keys. \<not> HasPrefix (Base k) ''_''}"
  by (induction keys arbitrary: st) (auto simp: Let_def split: prod.splits)


lemma render_loop_results:
  "distinct keys \<Longrightarrow> fst ` set (executed st) \<inter> set keys = {} \<Longrightarrow>
   \<forall>(f, rendered, err) \<in> set (executed st). results st f = Some rendered \<Longrightarrow>
   \<forall>(f, rendered, err) \<in> set (executed (render_loop ev e tpls keys st)).
      results (render_loop ev e tpls keys st) f = Some rendered"
proof (induction keys arbitrary: st)
  case Nil
  then show ?case by simp
next
  case (Cons k keys)
  show ?case
  proof (cases "HasPrefix (Base k) ''_''")
    case True
    with Cons show ?thesis by auto
  next
    case False
    obtain h' rendered err where rt:
      "renderTemplate ev e (rs_heap st) k (entry tpls k) = (h', rendered, err)"
      by (cases "renderTemplate ev e (rs_heap st) k (entry tpls k)") auto
    define st' where "st' = \<lparr>rs_heap = h', results = (results st)(k \<mapsto> rendered),
        errs = (if err \<noteq> None then errs st @ [err] else errs st),
        executed = executed st @ [(k, rendered, err)]\<rparr>"
    have step: "render_loop ev e tpls (k # keys) st = render_loop ev e tpls keys st'"
      using False rt by (simp add: st'_def)
    have "distinct keys" using Cons.prems(1) by simp
    moreover have "fst ` set (executed st') \<inter> set keys = {}"
      using Cons.prems(1,2) by (auto simp: st'_def)
    moreover have "\<forall>(f, rendered, err) \<in> set (executed st'). results st' f = Some rendered"
    proof -
      have "k \<notin> fst ` set (executed st)" using Cons.prems(2) by auto
      then have "\<And>r x. (k, r, x) \<notin> set (executed st)" by force
      with Cons.prems(3) show ?thesis by (auto simp: st'_def)
    qed
    ultimately show ?thesis unfolding step by (rule Cons.IH)
  qed
qed

lemma render_loop_errs:
  "\<forall>x. Some x \<in> set (errs st) \<longleftrightarrow> (\<exists>f r. (f, r, Some x) \<in> set (executed st)) \<Longrightarrow>
   \<forall>x. Some x \<in> set (errs (render_loop ev e tpls keys st)) \<longleftrightarrow>
       (\<exists>f r. (f, r, Some x) \<in> set (executed (render_loop ev e tpls keys st)))"
proof (induction keys arbitrary: st)
  case Nil
  then show ?case by simp
next
  case (Cons k keys)
  show ?case
  proof (cases "HasPrefix (Base k) ''_''")
    case True
    with Cons show ?thesis by auto
  next
    case False
    obtain h' rendered err where rt:
      "renderTemplate ev e (rs_heap st) k (entry tpls k) = (h', rendered, err)"
      by (cases "renderTemplate ev e (rs_heap st) k (entry tpls k)") auto
    define st' where "st' = \<lparr>rs_heap = h', results = (results st)(k \<mapsto> rendered),
        errs = (if err \<noteq> None then errs st @ [err] else errs st),
        executed = executed st @ [(k, rendered, err)]\<rparr>"
    have step: "render_loop ev e tpls (k # keys) st = render_loop ev e tpls keys st'"
      using False rt by (simp add: st'_def)
    have "\<forall>x. Some x \<in> set (errs st') \<longleftrightarrow> (\<exists>f r. (f, r, Some x) \<in> set (executed st'))"
      using Cons.prems by (auto simp: st'_def)
    then show ?thesis unfolding step by (rule Cons.IH)
  qed
qed

lemma render_loop_calls:
  "\<forall>(f, rendered, err) \<in> set (executed st).
      (err \<noteq> None \<longrightarrow> rendered = []) \<and>
      (\<exists>h h'. renderTemplate ev e h f (entry tpls f) = (h', rendered, err)) \<Longrightarrow>
   \<forall>(f, rendered, err) \<in> set (executed (render_loop ev e tpls keys st)).
      (err \<noteq> None \<longrightarrow> rendered = []) \<and>
      (\<exists>h h'. renderTemplate ev e h f (entry tpls f) = (h', rendered, err))"
proof (induction keys arbitrary: st)
  case Nil
  then show ?case by simp
next
  case (Cons k keys)
  show ?case
  proof (cases "HasPrefix (Base k) ''_''")
    case True
    with Cons show ?thesis by auto
  next
    case False
    obtain h' rendered err where rt:
      "renderTemplate ev e (rs_heap st) k (entry tpls k) = (h', rendered, err)"
      by (cases "renderTemplate ev e (rs_heap st) k (entry tpls k)") auto
    define st' where "st' = \<lparr>rs_heap = h', results = (results st)(k \<mapsto> rendered),
        errs = (if err \<noteq> None then errs st @ [err] else errs st),
        executed = executed st @ [(k, rendered, err)]\<rparr>"
    have step: "render_loop ev e tpls (k # keys) st = render_loop ev e tpls keys st'"
      using False rt by (simp add: st'_def)
    have "err \<noteq> None \<longrightarrow> rendered = []"
      using rt renderTemplate_error_empty by (cases err) auto
    with rt Cons.prems
    have "\<forall>(f, rendered, err) \<in> set (executed st').
      (err \<noteq> None \<longrightarrow> rendered = []) \<and>
      (\<exists>h h'. renderTemplate ev e h f (entry tpls f) = (h', rendered, err))"
      by (auto simp: st'_def)
    then show ?thesis unfolding step by (rule Cons.IH)
  qed
qed

lemma errors_Join_None: "errors_Join es = None \<longleftrightarrow> (\<forall>x. Some x \<notin> set es)"
proof -
  have "concat (map (\<lambda>e. case e of None \<Rightarrow> [] | Some x \<Rightarrow> [x]) es) = [] \<longleftrightarrow> (\<forall>x. Some x \<notin> set es)"
    by (induction es) (auto split: option.splits)
  then show ?thesis by (simp add: errors_Join_def Let_def)
qed

lemma set_sortTemplates: "set (sortTemplates tpls) = fst ` set tpls"
  by (simp add: sortTemplates_def set_Sort)

lemma distinct_Sort: "distinct xs \<Longrightarrow> distinct (Sort lt xs)"
  by (simp add: card_distinct distinct_card length_Sort set_Sort)






text \<open>
  Claim C10. When the texts of all entries parse, the keys of the output map are the
  keys of the entries that are no partials, and these are the entries executed. Every
  entry executed is in the output map with the text its \<open>renderTemplate\<close> call returned,
  which is the empty string when the call returned an error. The error of the pass is
  set exactly when the call of some entry returned an error.
\<close>

theorem failed_entries_kept:
  assumes "distinct (map fst tpls)"
    and "\<forall>f \<in> fst ` set tpls. parse_error ev f (tpl (entry tpls f)) = None"
  shows "dom (res_output (renderTemplates ev e h tpls))
           = {k \<in> fst ` set tpls. \<not> HasPrefix (Base k) ''_''} \<and>
         fst ` set (res_executed (renderTemplates ev e h tpls))
           = {k \<in> fst ` set tpls. \<not> HasPrefix (Base k) ''_''} \<and>
         (\<forall>(f, rendered, err) \<in> set (res_executed (renderTemplates ev e h tpls)).
            res_output (renderTemplates ev e h tpls) f = Some rendered \<and>
            (err \<noteq> None \<longrightarrow> rendered = []) \<and>
            (\<exists>h1 h2. renderTemplate ev (res_engine (renderTemplates ev e h tpls)) h1 f (entry tpls f)
                       = (h2, rendered, err))) \<and>
         (res_error (renderTemplates ev e h tpls) \<noteq> None \<longleftrightarrow>
            (\<exists>(f, rendered, err) \<in> set (res_executed (renderTemplates ev e h tpls)). err \<noteq> None))"
proof -
  let ?keys = "sortTemplates tpls"
  have "\<forall>f \<in> set ?keys. parse_error ev f (tpl (entry tpls f)) = None"
    using assms(2) by (simp add: set_sortTemplates)
  from parse_loop_Inr [OF this, of "goTemplate e"] obtain t where
    pl: "parse_loop ev tpls (goTemplate e) ?keys = Inr t" by blast
  define e' where "e' = e\<lparr>goTemplate := t\<rparr>"
  define st0 :: render_state where "st0 = \<lparr>rs_heap = h, results = Map.empty,
                       errs = replicate (length tpls) None, executed = []\<rparr>"
  define st where "st = render_loop ev e' tpls ?keys st0"
  have res: "renderTemplates ev e h tpls =
      \<lparr>res_engine = e', res_heap = rs_heap st, res_executed = executed st,
       res_output = results st, res_error = errors_Join (errs st)\<rparr>"
    using pl by (simp add: renderTemplates_def Let_def st_def st0_def e'_def)
  have d: "distinct ?keys" using assms(1) by (simp add: sortTemplates_def distinct_Sort)
  have 1: "dom (results st) = {k \<in> fst ` set tpls. \<not> HasPrefix (Base k) ''_''}"
    by (simp add: st_def render_loop_dom st0_def set_sortTemplates)
  have 2: "fst ` set (executed st) = {k \<in> fst ` set tpls. \<not> HasPrefix (Base k) ''_''}"
    by (simp add: st_def render_loop_executed st0_def set_sortTemplates)
  have 3: "\<forall>(f, rendered, err) \<in> set (executed st). results st f = Some rendered"
    unfolding st_def using d by (rule render_loop_results) (simp_all add: st0_def)
  have 4: "\<forall>(f, rendered, err) \<in> set (executed st).
      (err \<noteq> None \<longrightarrow> rendered = []) \<and>
      (\<exists>h h'. renderTemplate ev e' h f (entry tpls f) = (h', rendered, err))"
    unfolding st_def by (rule render_loop_calls) (simp add: st0_def)
  have 5: "\<forall>x. Some x \<in> set (errs st) \<longleftrightarrow> (\<exists>f r. (f, r, Some x) \<in> set (executed st))"
    unfolding st_def by (rule render_loop_errs) (simp add: st0_def)
  have 6: "errors_Join (errs st) \<noteq> None \<longleftrightarrow> (\<exists>(f, rendered, err) \<in> set (executed st). err \<noteq> None)"
    using 5 by (auto simp: errors_Join_None)
  from 1 2 3 4 6 show ?thesis unfolding res by (simp add: case_prod_unfold) 
qed

subsection \<open>The render pass on the examples\<close>

lemma example_keys: "sortTemplates example_tpls = [''c/t/bad.yaml'', ''c/t/a.yaml'', ''c/t/_h.tpl'']"
  by (simp add: sortTemplates_def Sort_def Reverse_def Less_def Count.simps Compare_def Let_def example_tpls_def)


lemma example_entries:
  "entry example_tpls ''c/t/a.yaml'' = \<lparr>tpl = ''a: <no value>'', vals = Some 0, basePath = ''c/t''\<rparr>"
  "entry example_tpls ''c/t/_h.tpl'' = \<lparr>tpl = ''helper'', vals = Some 0, basePath = ''c/t''\<rparr>"
  "entry example_tpls ''c/t/bad.yaml'' = \<lparr>tpl = ''{{ fail `no` }}'', vals = Some 0, basePath = ''c/t''\<rparr>"
  "length example_tpls = 3"
  by (simp_all add: entry_def example_tpls_def)

lemmas render_simps = renderTemplates_def example_keys example_entries
  example_evaluator_def New_Parse_def NewEngine_def HasPrefix_def Base_def
  renderTemplate_def alloc_def store_def ReplaceAll.simps errors_Join_def cleanupExecError_def
  warnRegex_FindStringSubmatch_def warnStartDelim_def warnEndDelim_def warnWrap_def Let_def
  example_options_def numeral_3_eq_3



lemma example_output:
  "res_output (renderTemplates example_evaluator (NewEngine example_options) [Map.empty] example_tpls)
     ''c/t/a.yaml'' = Some ''a: ''"
  "res_output (renderTemplates example_evaluator (NewEngine example_options) [Map.empty] example_tpls)
     ''c/t/bad.yaml'' = Some []"
  "res_error (renderTemplates example_evaluator (NewEngine example_options) [Map.empty] example_tpls)
     = Some (JoinError [Errorf ''execution error at (c/t/bad.yaml:1:3): no''])"
  by (simp_all add: render_simps)




theorem failed_entries_kept_witness:
  "distinct (map fst example_tpls) \<and>
   dom (res_output (renderTemplates example_evaluator (NewEngine example_options) [Map.empty] example_tpls))
     = {k \<in> fst ` set example_tpls. \<not> HasPrefix (Base k) ''_''} \<and>
   res_output (renderTemplates example_evaluator (NewEngine example_options) [Map.empty] example_tpls)
     ''c/t/a.yaml'' = Some ''a: '' \<and>
   res_output (renderTemplates example_evaluator (NewEngine example_options) [Map.empty] example_tpls)
     ''c/t/bad.yaml'' = Some [] \<and>
   res_error (renderTemplates example_evaluator (NewEngine example_options) [Map.empty] example_tpls)
     = Some (JoinError [Errorf ''execution error at (c/t/bad.yaml:1:3): no''])"
proof -
  let ?R = "renderTemplates example_evaluator (NewEngine example_options) [Map.empty] example_tpls"
  have d: "distinct (map fst example_tpls)" by (simp add: example_tpls_def)
  have a: "\<forall>f \<in> fst ` set example_tpls. parse_error example_evaluator f (tpl (entry example_tpls f)) = None"
    by (simp add: example_tpls_def entry_def example_evaluator_def)
  from failed_entries_kept [OF d a, of "NewEngine example_options" "[Map.empty]"]
  have "dom (res_output ?R) = {k \<in> fst ` set example_tpls. \<not> HasPrefix (Base k) ''_''}"
    by (rule conjunct1)
  with d example_output show ?thesis by simp
qed

section \<open>The scope of an entry during rendering\<close>





lemma renderTemplate_nil_scope:
  "vals r = None \<Longrightarrow>
   snd (renderTemplate ev e h filename r)
     = ([], Some (Errorf ''rendering template failed: assignment to entry in nil map''))"
  by (simp add: renderTemplate_def alloc_def store_def)


section \<open>The placeholder for a missing value\<close>

lemma placeholder_pieces:
  "rendered = ReplaceAll buf ''<no value>'' [] \<Longrightarrow>
   rendered = concat (Split buf ''<no value>'') \<and>
   Join (Split buf ''<no value>'') ''<no value>'' = buf \<and>
   (\<forall>p \<in> set (Split buf ''<no value>''). \<not> sublist ''<no value>'' p) \<and>
   ((\<forall>p \<in> set (Split buf ''<no value>''). CHR ''<'' \<notin> set p) \<longrightarrow>
      \<not> sublist ''<no value>'' rendered)"
proof (intro conjI impI)
  assume r: "rendered = ReplaceAll buf ''<no value>'' []"
  then show c: "rendered = concat (Split buf ''<no value>'')"
    by (simp add: ReplaceAll_delete)
  show "Join (Split buf ''<no value>'') ''<no value>'' = buf"
    by (rule Join_Split) simp
  show "\<forall>p \<in> set (Split buf ''<no value>''). \<not> sublist ''<no value>'' p"
    using Split_pieces [of "''<no value>''" _ buf] by blast
  assume "\<forall>p \<in> set (Split buf ''<no value>''). CHR ''<'' \<notin> set p"
  then have "CHR ''<'' \<notin> set rendered" unfolding c by simp
  then show "\<not> sublist ''<no value>'' rendered"
    by (rule no_char_no_sublist [rotated]) simp
qed

text \<open>
  Claim C7, amended. Every rendered text returned by \<open>renderTemplate\<close> and every string
  returned by \<open>tpl\<close> is the evaluator's text with the occurrences of the placeholder that
  one scan from the left finds deleted: the pieces of the text between those occurrences,
  none of which holds the placeholder, put together. The result has no occurrence of the
  placeholder when no piece holds the character \<open><\<close>.
\<close>

theorem placeholder_deleted:
  "(snd (renderTemplate ev e h filename r) = (rendered, None) \<longrightarrow>
      (\<exists>buf. ExecuteTemplate ev (goTemplate e) (fst (renderTemplate ev e h filename r))
                filename (VValues (vals r)) = Executed buf \<and>
         rendered = concat (Split buf ''<no value>'') \<and>
         Join (Split buf ''<no value>'') ''<no value>'' = buf \<and>
         (\<forall>p \<in> set (Split buf ''<no value>''). \<not> sublist ''<no value>'' p) \<and>
         ((\<forall>p \<in> set (Split buf ''<no value>''). CHR ''<'' \<notin> set p) \<longrightarrow>
            \<not> sublist ''<no value>'' rendered))) \<and>
   (tplFun ev parent strict h txt data = Returns (s, None) \<longrightarrow>
      (\<exists>buf. ExecuteTemplate ev
                (parent\<lparr>tmpl_option := (if strict then ''missingkey=error'' else ''missingkey=zero''),
                        tmpl := (tmpl parent)(tmpl_name parent \<mapsto> txt)\<rparr>)
                h (tmpl_name parent) data = Executed buf \<and>
         s = concat (Split buf ''<no value>'') \<and>
         Join (Split buf ''<no value>'') ''<no value>'' = buf \<and>
         (\<forall>p \<in> set (Split buf ''<no value>''). \<not> sublist ''<no value>'' p) \<and>
         ((\<forall>p \<in> set (Split buf ''<no value>''). CHR ''<'' \<notin> set p) \<longrightarrow>
            \<not> sublist ''<no value>'' s)))"
proof (intro conjI impI)
  assume a: "snd (renderTemplate ev e h filename r) = (rendered, None)"
  obtain h1 t where al: "alloc h [''Name'' \<mapsto> VString filename, ''BasePath'' \<mapsto> VString (basePath r)] = (h1, t)"
    by (simp add: alloc_def)
  from a al obtain h2 where st: "store h1 (vals r) ''Template'' (VValues t) = Some h2"
    by (cases "store h1 (vals r) ''Template'' (VValues t)") (auto simp: renderTemplate_def)
  from a al st obtain buf where
    ex: "ExecuteTemplate ev (goTemplate e) h2 filename (VValues (vals r)) = Executed buf"
    and r: "rendered = ReplaceAll buf ''<no value>'' []"
    by (cases "ExecuteTemplate ev (goTemplate e) h2 filename (VValues (vals r))")
       (auto simp: renderTemplate_def)
  from al st ex have "fst (renderTemplate ev e h filename r) = h2"
    by (simp add: renderTemplate_def)
  with ex placeholder_pieces [OF r]
  show "\<exists>buf. ExecuteTemplate ev (goTemplate e) (fst (renderTemplate ev e h filename r))
                filename (VValues (vals r)) = Executed buf \<and>
         rendered = concat (Split buf ''<no value>'') \<and>
         Join (Split buf ''<no value>'') ''<no value>'' = buf \<and>
         (\<forall>p \<in> set (Split buf ''<no value>''). \<not> sublist ''<no value>'' p) \<and>
         ((\<forall>p \<in> set (Split buf ''<no value>''). CHR ''<'' \<notin> set p) \<longrightarrow>
            \<not> sublist ''<no value>'' rendered)"
    by auto
next
  let ?t = "parent\<lparr>tmpl_option := (if strict then ''missingkey=error'' else ''missingkey=zero''),
                        tmpl := (tmpl parent)(tmpl_name parent \<mapsto> txt)\<rparr>"
  assume a: "tplFun ev parent strict h txt data = Returns (s, None)"
  then obtain buf where
    ex: "ExecuteTemplate ev ?t h (tmpl_name parent) data = Executed buf"
    and r: "s = ReplaceAll buf ''<no value>'' []"
    by (auto simp: tplFun_def New_Parse_def Let_def
        split: option.splits sum.splits exec_result.splits if_splits)
  with placeholder_pieces [OF r]
  show "\<exists>buf. ExecuteTemplate ev ?t h (tmpl_name parent) data = Executed buf \<and>
         s = concat (Split buf ''<no value>'') \<and>
         Join (Split buf ''<no value>'') ''<no value>'' = buf \<and>
         (\<forall>p \<in> set (Split buf ''<no value>''). \<not> sublist ''<no value>'' p) \<and>
         ((\<forall>p \<in> set (Split buf ''<no value>''). CHR ''<'' \<notin> set p) \<longrightarrow>
            \<not> sublist ''<no value>'' s)"
    by auto
qed


text \<open>
  Claim C7, as stated, fails: the deletion is not repeated on its own result. On the
  evaluator's text \<open><no <no value>value>\<close> both \<open>renderTemplate\<close> and \<open>tpl\<close> return the
  placeholder itself.
\<close>

theorem placeholder_left_in_output:
  "snd (renderTemplate example_evaluator
          (example_engine\<lparr>goTemplate := (goTemplate example_engine)
             \<lparr>tmpl := [''c/t/a.yaml'' \<mapsto> ''<no <no value>value>'']\<rparr>\<rparr>)
          [Map.empty] ''c/t/a.yaml'' \<lparr>tpl = ''<no <no value>value>'', vals = Some 0, basePath = ''c/t''\<rparr>)
     = (''<no value>'', None) \<and>
   tplFun example_evaluator (goTemplate example_engine) False [] ''<no <no value>value>'' VNil
     = Returns (''<no value>'', None)"
  by (simp add: renderTemplate_def alloc_def store_def example_evaluator_def example_engine_def
      tplFun_def New_Parse_def ReplaceAll.simps Let_def)

theorem placeholder_deleted_witness:
  "snd (renderTemplate example_evaluator example_engine [Map.empty] ''c/t/a.yaml''
          \<lparr>tpl = ''a: <no value>'', vals = Some 0, basePath = ''c/t''\<rparr>) = (''a: '', None) \<and>
   Split ''a: <no value>'' ''<no value>'' = [''a: '', []] \<and>
   \<not> sublist ''<no value>'' ''a: '' \<and>
   tplFun example_evaluator (goTemplate example_engine) False [Map.empty] ''b: <no value>!'' VNil
     = Returns (''b: !'', None) \<and>
   Split ''b: <no value>!'' ''<no value>'' = [''b: '', ''!''] \<and>
   \<not> sublist ''<no value>'' ''b: !''"
proof -
  let ?r = "\<lparr>tpl = ''a: <no value>'', vals = Some 0, basePath = ''c/t''\<rparr>"
  let ?ph = "''<no value>''"
  note inst = placeholder_deleted [of example_evaluator example_engine "[Map.empty]"
      "''c/t/a.yaml''" ?r "''a: ''" "goTemplate example_engine" False "''b: <no value>!''"
      VNil "''b: !''"]
  have a: "snd (renderTemplate example_evaluator example_engine [Map.empty] ''c/t/a.yaml'' ?r)
            = (''a: '', None)"
    by (simp add: renderTemplate_def alloc_def store_def example_evaluator_def example_engine_def
        ReplaceAll.simps Let_def)
  have b: "tplFun example_evaluator (goTemplate example_engine) False [Map.empty] ''b: <no value>!'' VNil
     = Returns (''b: !'', None)"
    by (simp add: example_evaluator_def example_engine_def tplFun_def New_Parse_def
        ReplaceAll.simps Let_def)
  have ea: "ExecuteTemplate example_evaluator (goTemplate example_engine) h ''c/t/a.yaml'' d
              = Executed ''a: <no value>''" for h d
    by (simp add: example_evaluator_def example_engine_def)
  have eb: "ExecuteTemplate example_evaluator
              ((goTemplate example_engine)\<lparr>tmpl_option := (if False then ''missingkey=error'' else ''missingkey=zero''),
                  tmpl := (tmpl (goTemplate example_engine))(tmpl_name (goTemplate example_engine) \<mapsto> ''b: <no value>!'')\<rparr>)
              h (tmpl_name (goTemplate example_engine)) d
              = Executed ''b: <no value>!''" for h d
    by (simp add: example_evaluator_def example_engine_def)
  have sa: "Split ''a: <no value>'' ?ph = [''a: '', []]" by (simp add: Split.simps)
  have sb: "Split ''b: <no value>!'' ?ph = [''b: '', ''!'']" by (simp add: Split.simps)
  from inst a ea sa have 1: "\<not> sublist ?ph ''a: ''" by auto
  from inst b eb sb have 2: "\<not> sublist ?ph ''b: !''" by auto
  from a b sa sb 1 2 show ?thesis by blast
qed

section \<open>The scopes of the chart tree\<close>

lemma next_scope_Values:
  "next_scope h vs m isRoot files emptyValues subCharts ''Values'' =
     (if isRoot then Some (index (deref h vs) ''Values'')
      else (case Table h vs (''Values.'' @ md_Name m) of
              Inr t \<Rightarrow> Some (VValues t)
            | Inl err \<Rightarrow> None))"
  by (simp add: next_scope_def Let_def split: sum.splits)

lemma next_scope_stray_key:
  "next_scope h vs m isRoot files emptyValues subCharts ''chartutil.Values'' = Some (VValues emptyValues)"
  by (simp add: next_scope_def Let_def split: sum.splits)

text \<open>
  Claim C1 holds for the root and for a sub-chart whose section is found, and fails for a
  sub-chart without a section: the map literal of \<open>recAllTpls\<close> puts the empty table under
  the key \<open>chartutil.Values\<close>, not under \<open>Values\<close>, so that nothing sets \<open>Values\<close> when the
  lookup fails. On the example the scope of \<open>app\<close> has the caller's \<open>Values\<close> table itself,
  the scope of \<open>db\<close> has the table found under \<open>Values.db\<close>, and the scope of \<open>cache\<close>,
  for which the lookup of \<open>Values.cache\<close> fails, has no \<open>Values\<close> key at all; the empty
  table meant for it sits under \<open>chartutil.Values\<close>.
\<close>

theorem recAllTpls_missing_section:
  "(case allTemplates example_values example_chart (Some 0) of
      Panics p \<Rightarrow> False
    | Returns w \<Rightarrow>
        deref (w_heap w) (vals (entry (w_templates w) ''app/templates/app.yaml'')) ''Values''
          = Some (VMap (Some 1)) \<and>
        deref example_values (Some 0) ''Values'' = Some (VMap (Some 1)) \<and>
        Table (w_heap w) (vals (entry (w_templates w) ''app/templates/app.yaml'')) ''Values.db''
          = Inr (Some 2) \<and>
        deref (w_heap w) (vals (entry (w_templates w) ''app/charts/db/templates/db.yaml'')) ''Values''
          = Some (VValues (Some 2)) \<and>
        Table (w_heap w) (vals (entry (w_templates w) ''app/templates/app.yaml'')) ''Values.cache''
          = Inl (ErrNoTable ''cache'') \<and>
        deref (w_heap w) (vals (entry (w_templates w) ''app/charts/cache/templates/c.yaml'')) ''Values''
          = None \<and>
        deref (w_heap w) (vals (entry (w_templates w) ''app/charts/cache/templates/c.yaml''))
            ''chartutil.Values''
          = Some (VValues (Some 10)) \<and>
        deref (w_heap w) (Some 10) = Map.empty)"
  by (simp add: allTemplates_def example_chart_def example_values_def alloc_def next_scope_def
      Table_def ParsePath_def Split.simps tableLookup_def deref_def index_def ChartFullPath_def
      Name_def store_def isTemplateValid_def isLibraryChart_def EqualFold_def lower_def
      path_Join_def Clean_def Let_def entry_def)

section \<open>The depth of \<open>include\<close>\<close>

lemma nested_error_suffix:
  "suffix (Error (nested_error 0 name)) (Error (nested_error k name))"
proof (induction k)
  case 0
  show ?case by (rule suffix_order.refl)
next
  case (Suc k)
  have "Error (nested_error (Suc k) name) = ''error calling include: '' @ Error (nested_error k name)"
    by (simp only: nested_error.simps Error.simps)
  with Suc show ?case by (simp only: suffix_appendI)
qed

lemma includeFun_refuses:
  "includedNames name = Some v \<Longrightarrow> v > recursionMaxNums \<Longrightarrow>
   includeFun (Suc n) ts includedNames name data =
     Some (Returns ([], Some (nested_error 0 name)), includedNames)"
  by simp

lemma depth_upd: "depth (m(k \<mapsto> v)) k' = (if k' = k then v else depth m k')"
  by (simp add: depth_def)

lemma balanced:
  "(\<forall>names name data res names'.
      includeFun n ts names name data = Some (Returns res, names') \<longrightarrow>
      (\<forall>k. depth names' k = depth names k)) \<and>
   (\<forall>names buf b res names'.
      execute_body n ts names buf b = Some (Returns res, names') \<longrightarrow>
      (\<forall>k. depth names' k = depth names k))"
proof (induction n)
  case 0
  then show ?case by simp
next
  case (Suc n)
  then have ihI: "\<And>names name data res names' k.
      includeFun n ts names name data = Some (Returns res, names') \<Longrightarrow> depth names' k = depth names k"
    and ihE: "\<And>names buf b res names' k.
      execute_body n ts names buf b = Some (Returns res, names') \<Longrightarrow> depth names' k = depth names k"
    by blast+
  have inner: "depth n1 k = depth (names(name \<mapsto> d)) k"
    if "(case ts name data of
           None \<Rightarrow> Some (Returns ([], Some (Errorf (''template: no template '' @ name))), names(name \<mapsto> d))
         | Some b \<Rightarrow> execute_body n ts (names(name \<mapsto> d)) [] b) = Some (Returns r, n1)"
    for names name data d r n1 k
    using that ihE by (cases "ts name data") auto
  have I: "depth names' k = depth names k"
    if a: "includeFun (Suc n) ts names name data = Some (Returns res, names')"
    for names name data res names' k
  proof (cases "names name")
    case None
    from a None obtain r n1 where
      c: "(case ts name data of
           None \<Rightarrow> Some (Returns ([], Some (Errorf (''template: no template '' @ name))), names(name \<mapsto> 1))
         | Some b \<Rightarrow> execute_body n ts (names(name \<mapsto> 1)) [] b) = Some (Returns r, n1)"
      and n': "names' = n1(name \<mapsto> depth n1 name - 1)"
      by (cases res) (auto split: option.splits outcome.splits)
    from inner [OF c] have "\<And>k. depth n1 k = depth (names(name \<mapsto> 1)) k" .
    with n' None show ?thesis by (simp add: depth_upd) (simp add: depth_def)
  next
    case (Some v)
    show ?thesis
    proof (cases "v > recursionMaxNums")
      case True
      with a Some show ?thesis by simp
    next
      case False
      from a Some False obtain r n1 where
        c: "(case ts name data of
             None \<Rightarrow> Some (Returns ([], Some (Errorf (''template: no template '' @ name))), names(name \<mapsto> v + 1))
           | Some b \<Rightarrow> execute_body n ts (names(name \<mapsto> v + 1)) [] b) = Some (Returns r, n1)"
        and n': "names' = n1(name \<mapsto> depth n1 name - 1)"
        by (cases res) (auto split: option.splits outcome.splits)
      from inner [OF c] have "\<And>k. depth n1 k = depth (names(name \<mapsto> v + 1)) k" .
      with n' Some show ?thesis by (simp add: depth_upd) (simp add: depth_def)
    qed
  qed
  have E: "depth names' k = depth names k"
    if a: "execute_body (Suc n) ts names buf b = Some (Returns res, names')"
    for names buf b res names' k
  proof (cases b)
    case Done
    with a show ?thesis by simp
  next
    case (Write s b')
    with a ihE show ?thesis by simp
  next
    case (Stop msg)
    with a show ?thesis by simp
  next
    case (Crash p)
    with a show ?thesis by simp
  next
    case (CallInclude nm d cont)
    with a obtain s e n1 where i: "includeFun n ts names nm d = Some (Returns (s, e), n1)"
      by (cases res) (auto split: option.splits outcome.splits)
    from ihI [OF i] have d1: "depth n1 k = depth names k" .
    show ?thesis
    proof (cases e)
      case None
      with a CallInclude i have "execute_body n ts n1 buf (cont s) = Some (Returns res, names')" by simp
      from ihE [OF this] d1 show ?thesis by simp
    next
      case (Some err)
      with a CallInclude i have "names' = n1" by simp
      with d1 show ?thesis by simp
    qed
  qed
  from I E show ?case by blast
qed

lemma loop_template_loop:
  "loop_template ''loop'' data = Some (CallInclude ''loop'' data (\<lambda>s. Write s Done))"
  by (simp add: loop_template_def)

lemma count_template_count:
  "count_template ''count'' (VNumber n) =
     (if n > 0 then Some (CallInclude ''count'' (VNumber (n - 1)) (\<lambda>s. Write s Done))
      else Some (Write ''bottom'' Done))"
  by (simp add: count_template_def)

lemma loop_from_depth:
  "names ''loop'' = Some v \<Longrightarrow> v \<le> 1001 \<Longrightarrow> k = nat (1001 - v) \<Longrightarrow> 2 * k + 1 \<le> fuel \<Longrightarrow>
   includeFun fuel loop_template names ''loop'' data
     = Some (Returns ([], Some (nested_error k ''loop'')), names)"
proof (induction k arbitrary: v names fuel)
  case 0
  then have v: "v = 1001" by simp
  from 0 obtain f where "fuel = Suc f" by (cases fuel) auto
  with 0 v show ?case by (simp add: recursionMaxNums_def)
next
  case (Suc k)
  then have v: "v \<le> 1000" and k: "k = nat (1001 - (v + 1))" by auto
  from Suc.prems obtain f where f: "fuel = Suc (Suc f)" and ff: "2 * k + 1 \<le> f"
    by (cases fuel; cases "fuel - 1") auto
  let ?names = "names(''loop'' \<mapsto> v + 1)"
  have "includeFun f loop_template ?names ''loop'' data
     = Some (Returns ([], Some (nested_error k ''loop'')), ?names)"
    using v k ff by (intro Suc.IH) auto
  then have "execute_body (Suc f) loop_template ?names []
               (CallInclude ''loop'' data (\<lambda>s. Write s Done))
     = Some (Returns ([], Some (nested_error (Suc k) ''loop'')), ?names)"
    by simp
  moreover have "?names(''loop'' \<mapsto> depth ?names ''loop'' - 1) = names"
    using Suc.prems(1) by (auto simp: depth_def)
  ultimately show ?case
    using Suc.prems(1) v f by (simp add: loop_template_loop recursionMaxNums_def)
qed

lemma loop_fails:
  assumes "2003 \<le> fuel"
  shows "includeFun fuel loop_template Map.empty ''loop'' data
     = Some (Returns ([], Some (nested_error 1001 ''loop'')), [''loop'' \<mapsto> 0])"
proof -
  from assms obtain f where f: "fuel = Suc (Suc f)" and ff: "2 * 1000 + 1 \<le> f"
    by (cases fuel; cases "fuel - 1") auto
  let ?names = "[''loop'' \<mapsto> (1::int)]"
  have "includeFun f loop_template ?names ''loop'' data
     = Some (Returns ([], Some (nested_error 1000 ''loop'')), ?names)"
    using ff by (intro loop_from_depth) auto
  moreover have "nested_error 1001 ''loop''
      = ExecError (''error calling include: '' @ Error (nested_error 1000 ''loop''))"
    using nested_error.simps(2) [of 1000 "''loop''"] by simp
  ultimately have "execute_body (Suc f) loop_template ?names []
               (CallInclude ''loop'' data (\<lambda>s. Write s Done))
     = Some (Returns ([], Some (nested_error 1001 ''loop'')), ?names)"
    by simp
  then show ?thesis
    using f by (simp add: loop_template_loop depth_def)
qed

lemma count_from_depth:
  "names ''count'' = Some v \<Longrightarrow> v + int n \<le> 1000 \<Longrightarrow> 2 * n + 3 \<le> fuel \<Longrightarrow>
   includeFun fuel count_template names ''count'' (VNumber (int n))
     = Some (Returns (''bottom'', None), names)"
proof (induction n arbitrary: v names fuel)
  case 0
  then obtain f where f: "fuel = Suc (Suc (Suc f))"
    by (cases fuel; cases "fuel - 1"; cases "fuel - 2") auto
  have "names(''count'' \<mapsto> v + 1, ''count'' \<mapsto> depth (names(''count'' \<mapsto> v + 1)) ''count'' - 1) = names"
    using 0(1) by (auto simp: depth_def)
  with 0 f show ?case by (simp add: count_template_count recursionMaxNums_def)
next
  case (Suc n)
  then obtain f where f: "fuel = Suc (Suc f)" and ff: "2 * n + 3 \<le> f"
    by (cases fuel; cases "fuel - 1") auto
  then obtain g where g: "f = Suc (Suc g)" by (cases f; cases "f - 1") auto
  let ?names = "names(''count'' \<mapsto> v + 1)"
  have "includeFun f count_template ?names ''count'' (VNumber (int n))
     = Some (Returns (''bottom'', None), ?names)"
    using Suc.prems ff by (intro Suc.IH) auto
  then have "execute_body (Suc f) count_template ?names []
               (CallInclude ''count'' (VNumber (int n)) (\<lambda>s. Write s Done))
     = Some (Returns (''bottom'', None), ?names)"
    using g by simp
  moreover have "?names(''count'' \<mapsto> depth ?names ''count'' - 1) = names"
    using Suc.prems(1) by (auto simp: depth_def)
  moreover have "int (Suc n) - 1 = int n" by simp
  ultimately show ?case
    using Suc.prems(1,2) f by (simp add: count_template_count recursionMaxNums_def)
qed


lemma count_from_empty:
  assumes "n \<le> 1000" and "2 * n + 3 \<le> fuel"
  shows "includeFun fuel count_template Map.empty ''count'' (VNumber (int n))
     = Some (Returns (''bottom'', None), [''count'' \<mapsto> 0])"
proof (cases n)
  case 0
  with assms obtain f where f: "fuel = Suc (Suc (Suc f))"
    by (cases fuel; cases "fuel - 1"; cases "fuel - 2") auto
  with 0 show ?thesis by (simp add: count_template_count depth_def)
next
  case (Suc m)
  with assms obtain f where f: "fuel = Suc (Suc f)" and ff: "2 * m + 3 \<le> f"
    by (cases fuel; cases "fuel - 1") auto
  then obtain g where g: "f = Suc (Suc g)" by (cases f; cases "f - 1") auto
  let ?names = "[''count'' \<mapsto> (1::int)]"
  have "includeFun f count_template ?names ''count'' (VNumber (int m))
     = Some (Returns (''bottom'', None), ?names)"
    using assms(1) Suc ff by (intro count_from_depth) auto
  then have "execute_body (Suc f) count_template ?names []
               (CallInclude ''count'' (VNumber (int m)) (\<lambda>s. Write s Done))
     = Some (Returns (''bottom'', None), ?names)"
    using g by simp
  moreover have "int (Suc m) - 1 = int m" by simp
  ultimately show ?thesis
    using Suc f by (simp add: count_template_count depth_def)
qed

text \<open>
  Claim C4, as stated, fails by one: the guard compares the depth recorded before the
  call, not the depth the call would bring. With 1000 executions of a name in progress
  the next call brings the depth to 1001 and is executed all the same; included with the
  number 1000, \<open>count\<close> runs 1001 deep and returns what the innermost execution wrote.
\<close>

text \<open>
  Claim C4, as stated, fails by one: the guard compares the depth recorded before the
  call, not the depth the call would bring. With 1000 executions of a name in progress
  the next call brings the depth to 1001 and is executed all the same; included with the
  number 1000, \<open>count\<close> runs 1001 deep and returns what the innermost execution wrote.
\<close>

theorem include_executes_beyond_bound:
  "includeFun 3 count_template [''count'' \<mapsto> 1000] ''count'' (VNumber 0)
     = Some (Returns (''bottom'', None), [''count'' \<mapsto> 1000]) \<and>
   includeFun 2003 count_template Map.empty ''count'' (VNumber 1000)
     = Some (Returns (''bottom'', None), [''count'' \<mapsto> 0])"
proof
  have "includeFun 3 count_template [''count'' \<mapsto> 1000] ''count'' (VNumber (int 0))
     = Some (Returns (''bottom'', None), [''count'' \<mapsto> 1000])"
    using count_from_depth [of "[''count'' \<mapsto> 1000]" 1000 0 3] by simp
  then show "includeFun 3 count_template [''count'' \<mapsto> 1000] ''count'' (VNumber 0)
     = Some (Returns (''bottom'', None), [''count'' \<mapsto> 1000])" by simp
  have "includeFun 2003 count_template Map.empty ''count'' (VNumber (int 1000))
     = Some (Returns (''bottom'', None), [''count'' \<mapsto> 0])"
    by (rule count_from_empty) simp_all
  then show "includeFun 2003 count_template Map.empty ''count'' (VNumber 1000)
     = Some (Returns (''bottom'', None), [''count'' \<mapsto> 0])" by simp
qed

text \<open>
  Claim C4, amended. When the depth recorded for the name already exceeds 1000, the call
  fails at once, executes nothing and leaves the depths as they are. Otherwise the depth
  of the name is incremented, the template is executed, and the depth is decremented
  after; every call that returns leaves all depths as it found them. A template that
  includes itself whatever happens returns the recursion-limit failure, given steps
  enough, and does not run forever; a template that includes itself exactly 5 times
  succeeds.
\<close>

text \<open>
  Claim C4, amended. When the depth recorded for the name already exceeds 1000, the call
  fails at once, executes nothing and leaves the depths as they are. Otherwise the depth
  of the name is incremented, the template is executed, and the depth is decremented
  after the execution returns; every call that returns leaves all depths as it found
  them. A template that includes itself whatever happens returns the recursion-limit
  failure, given steps enough, and does not run forever; a template that includes itself
  exactly 5 times succeeds.
\<close>

theorem include_depth_guard:
  "(includedNames name = Some v \<and> v > 1000 \<longrightarrow>
      includeFun (Suc n) ts includedNames name data
        = Some (Returns ([], Some (Errorf (''rendering template has a nested reference name: '' @ name
                                   @ '': unable to execute template''))), includedNames)) \<and>
   (depth includedNames name \<le> 1000 \<and> ts name data = Some b \<longrightarrow>
      includeFun (Suc n) ts includedNames name data
        = (case execute_body n ts (includedNames(name \<mapsto> depth includedNames name + 1)) [] b of
             None \<Rightarrow> None
           | Some (Panics p, names') \<Rightarrow> Some (Panics p, names')
           | Some (Returns (buf, err), names') \<Rightarrow>
               Some (Returns (buf, err), names'(name \<mapsto> depth names' name - 1)))) \<and>
   (includeFun n ts includedNames name data = Some (Returns res, names') \<longrightarrow>
      (\<forall>k. depth names' k = depth includedNames k)) \<and>
   (2003 \<le> fuel \<longrightarrow>
      (\<exists>err. includeFun fuel loop_template Map.empty ''loop'' data
                = Some (Returns ([], Some err), [''loop'' \<mapsto> 0]) \<and>
             suffix ''rendering template has a nested reference name: loop: unable to execute template''
               (Error err))) \<and>
   (13 \<le> fuel \<longrightarrow>
      includeFun fuel count_template Map.empty ''count'' (VNumber 5)
        = Some (Returns (''bottom'', None), [''count'' \<mapsto> 0]))"
proof (intro conjI impI)
  assume "includedNames name = Some v \<and> v > 1000"
  then show "includeFun (Suc n) ts includedNames name data
        = Some (Returns ([], Some (Errorf (''rendering template has a nested reference name: '' @ name
                                   @ '': unable to execute template''))), includedNames)"
    by (simp add: recursionMaxNums_def)
next
  assume "depth includedNames name \<le> 1000 \<and> ts name data = Some b"
  then show "includeFun (Suc n) ts includedNames name data
        = (case execute_body n ts (includedNames(name \<mapsto> depth includedNames name + 1)) [] b of
             None \<Rightarrow> None
           | Some (Panics p, names') \<Rightarrow> Some (Panics p, names')
           | Some (Returns (buf, err), names') \<Rightarrow>
               Some (Returns (buf, err), names'(name \<mapsto> depth names' name - 1)))"
    by (cases "includedNames name") (auto simp: depth_def recursionMaxNums_def)
next
  assume "includeFun n ts includedNames name data = Some (Returns res, names')"
  with balanced [of n ts] show "\<forall>k. depth names' k = depth includedNames k" by blast
next
  assume "2003 \<le> fuel"
  then have "includeFun fuel loop_template Map.empty ''loop'' data
     = Some (Returns ([], Some (nested_error 1001 ''loop'')), [''loop'' \<mapsto> 0])"
    by (rule loop_fails)
  moreover have "suffix (Error (nested_error 0 ''loop'')) (Error (nested_error 1001 ''loop''))"
    by (rule nested_error_suffix)
  then have "suffix ''rendering template has a nested reference name: loop: unable to execute template''
               (Error (nested_error 1001 ''loop''))" by simp
  ultimately show "\<exists>err. includeFun fuel loop_template Map.empty ''loop'' data
                = Some (Returns ([], Some err), [''loop'' \<mapsto> 0]) \<and>
             suffix ''rendering template has a nested reference name: loop: unable to execute template''
               (Error err)" by blast
next
  assume "13 \<le> fuel"
  then have "includeFun fuel count_template Map.empty ''count'' (VNumber (int 5))
        = Some (Returns (''bottom'', None), [''count'' \<mapsto> 0])"
    by (intro count_from_empty) simp_all
  then show "includeFun fuel count_template Map.empty ''count'' (VNumber 5)
        = Some (Returns (''bottom'', None), [''count'' \<mapsto> 0])" by simp
qed


theorem include_depth_guard_witness:
  "includeFun (Suc 0) loop_template [''loop'' \<mapsto> 1001] ''loop'' VNil
     = Some (Returns ([], Some (Errorf ''rendering template has a nested reference name: loop: unable to execute template'')),
             [''loop'' \<mapsto> 1001]) \<and>
   includeFun (Suc (Suc (Suc 0))) count_template Map.empty ''count'' (VNumber 0)
     = Some (Returns (''bottom'', None), [''count'' \<mapsto> 0]) \<and>
   depth [''count'' \<mapsto> 0] ''count'' = depth Map.empty ''count'' \<and>
   (\<exists>err. includeFun 2003 loop_template Map.empty ''loop'' VNil
            = Some (Returns ([], Some err), [''loop'' \<mapsto> 0]) \<and>
          suffix ''rendering template has a nested reference name: loop: unable to execute template''
            (Error err)) \<and>
   includeFun 13 count_template Map.empty ''count'' (VNumber 5)
     = Some (Returns (''bottom'', None), [''count'' \<mapsto> 0])"
proof -
  let ?b = "Write ''bottom'' Done"
  note one = include_depth_guard [of "[''loop'' \<mapsto> 1001]" "''loop''" 1001 0 loop_template VNil
      ?b "([], None)" Map.empty 2003]
  note two = include_depth_guard [of Map.empty "''count''" 0 "Suc (Suc 0)" count_template "VNumber 0"
      ?b "(''bottom'', None)" "[''count'' \<mapsto> 0]" 13]
  note three = include_depth_guard [of Map.empty "''count''" 0 "Suc (Suc (Suc 0))" count_template "VNumber 0"
      ?b "(''bottom'', None)" "[''count'' \<mapsto> 0]" 13]
  have 1: "includeFun (Suc 0) loop_template [''loop'' \<mapsto> 1001] ''loop'' VNil
     = Some (Returns ([], Some (Errorf ''rendering template has a nested reference name: loop: unable to execute template'')),
             [''loop'' \<mapsto> 1001])"
    using one by simp
  have "depth Map.empty ''count'' \<le> 1000 \<and> count_template ''count'' (VNumber 0) = Some ?b"
    by (simp add: depth_def count_template_def)
  with two have 2: "includeFun (Suc (Suc (Suc 0))) count_template Map.empty ''count'' (VNumber 0)
     = Some (Returns (''bottom'', None), [''count'' \<mapsto> 0])"
    by (simp add: depth_def)
  from three 2 have 3: "depth [''count'' \<mapsto> 0] ''count'' = depth Map.empty ''count''" by blast
  from one have 4: "\<exists>err. includeFun 2003 loop_template Map.empty ''loop'' VNil
            = Some (Returns ([], Some err), [''loop'' \<mapsto> 0]) \<and>
          suffix ''rendering template has a nested reference name: loop: unable to execute template''
            (Error err)" by simp
  from two have 5: "includeFun 13 count_template Map.empty ''count'' (VNumber 5)
     = Some (Returns (''bottom'', None), [''count'' \<mapsto> 0])" by simp
  from 1 2 3 4 5 show ?thesis by blast
qed



text \<open>
  A panic is no return: it passes the decrement by, and the depth stays as incremented.
\<close>

lemma include_panic_keeps_depth:
  "includeFun (Suc (Suc 0)) (\<lambda>name data. if name = ''crash'' then Some (Crash ''nil pointer'') else None)
     Map.empty ''crash'' data
     = Some (Panics ''nil pointer'', [''crash'' \<mapsto> 1])"
  by simp

end
